theory Spec2Isabelle
  imports Complex_Main
begin

section \<open>Embedding of the q-trader sources\<close>

text \<open>
  Each subsection embeds the functions of one source file of the repository as HOL
  functions with the same names, the same case order and the same checks. Mutation is explicit state
  passing, a raised exception is an \<open>Inl\<close> value, a Python \<open>None\<close> result is
  \<open>None\<close>. Python \<open>str\<close> values are modelled as \<open>string\<close> restricted to ASCII
  (one \<open>char\<close> per code point and per byte).
\<close>

subsection \<open>Python values read from JSON\<close>

text \<open>
  What \<open>json.loads\<close> returns: \<open>None\<close>, a bool, a number (modelled as a rational), a
  \<open>str\<close>, a list, or a \<open>dict\<close> with string keys, held as an association list with
  distinct keys. \<open>py_error\<close> lists the exceptions that the modelled functions can meet.
\<close>

datatype json =
  JNull
| JBool bool
| JNum rat
| JStr string
| JArr "json list"
| JObj "(string \<times> json) list"

datatype py_error =
  AttributeError
| ConnectionError
| JSONDecodeError
| KeyError
| OverflowError
| TypeError
| UnicodeDecodeError
| ValueError

text \<open>Truth value of a Python object, as \<open>if x\<close>, \<open>not x\<close> and \<open>x or y\<close> test it.\<close>

fun truthy :: "json \<Rightarrow> bool" where
  "truthy JNull = False"
| "truthy (JBool b) = b"
| "truthy (JNum r) = (r \<noteq> 0)"
| "truthy (JStr s) = (s \<noteq> [])"
| "truthy (JArr xs) = (xs \<noteq> [])"
| "truthy (JObj kvs) = (kvs \<noteq> [])"

text \<open>\<open>x or y\<close>.\<close>

definition py_or :: "json \<Rightarrow> json \<Rightarrow> json" where
  "py_or x y = (if truthy x then x else y)"

text \<open>
  \<open>x.get(key)\<close>: a \<open>dict\<close> method; on a \<open>str\<close>, a list, a number, a bool or \<open>None\<close> the
  attribute lookup raises \<open>AttributeError\<close>. A missing key gives \<open>None\<close>.
\<close>

fun py_get :: "json \<Rightarrow> string \<Rightarrow> py_error + json" where
  "py_get (JObj kvs) key = Inr (case map_of kvs key of None \<Rightarrow> JNull | Some v \<Rightarrow> v)"
| "py_get _ key = Inl AttributeError"

text \<open>
  \<open>x[key]\<close> with a string key: \<open>KeyError\<close> on a \<open>dict\<close> without the key, \<open>TypeError\<close> on a
  list or a \<open>str\<close> (their indices must be integers) and on values that are not
  subscriptable.
\<close>

fun py_getitem :: "json \<Rightarrow> string \<Rightarrow> py_error + json" where
  "py_getitem (JObj kvs) key = (case map_of kvs key of None \<Rightarrow> Inl KeyError | Some v \<Rightarrow> Inr v)"
| "py_getitem _ key = Inl TypeError"

text \<open>\<open>x != 0\<close>: numbers compare by value, \<open>False == 0\<close> and \<open>True == 1\<close>.\<close>

fun ne_zero :: "json \<Rightarrow> bool" where
  "ne_zero (JNum r) = (r \<noteq> 0)"
| "ne_zero (JBool b) = b"
| "ne_zero _ = True"

subsection \<open>Python strings\<close>

text \<open>
  \<open>str_split\<close> is \<open>str.split(sep)\<close> for a one-character separator: a string with \<open>n\<close>
  separators gives \<open>n + 1\<close> parts, empty parts included.
\<close>

fun str_split :: "char \<Rightarrow> string \<Rightarrow> string list" where
  "str_split sep [] = [[]]"
| "str_split sep (c # cs) =
     (if c = sep then [] # str_split sep cs
      else (case str_split sep cs of
              [] \<Rightarrow> [[c]]
            | p # ps \<Rightarrow> (c # p) # ps))"

subsection \<open>\<open>src/utils/ipc/socket_client.py\<close>: \<open>SocketClient\<close>\<close>

text \<open>
  The client's \<open>_pending_requests\<close> maps a request id to the future that \<open>request()\<close>
  awaits. A future is shared between the two, so the futures live in a store of their
  own, \<open>futures\<close>, keyed by the request id they were created for, and
  \<open>pending_requests\<close> is the set of ids still in the dictionary. \<open>delivered\<close> records
  the calls of \<open>on_data_callback\<close> (message type and data), \<open>has_callback\<close> whether one
  is registered. The fields \<open>_pending_requests\<close> and \<open>_connection_closed_by_server\<close>
  lose their leading underscore.
\<close>

datatype future_state =
  Pending
| Done_result json
| Done_exception json

record socket_client =
  connected :: bool
  pending_requests :: "string set"
  futures :: "string \<rightharpoonup> future_state"
  has_callback :: bool
  delivered :: "(json \<times> json) list"
  connection_closed_by_server :: bool

text \<open>
  \<open>self._pending_requests.pop(request_id, None)\<close>: the key is whatever JSON value the
  message carries. A list or a \<open>dict\<close> is not hashable (\<open>TypeError\<close>); a number or a bool
  is never a key of the dictionary, whose keys are strings.
\<close>

fun pop_pending :: "socket_client \<Rightarrow> json \<Rightarrow> py_error + (string option \<times> socket_client)" where
  "pop_pending c (JStr s) =
     Inr (if s \<in> pending_requests c then Some s else None,
          c\<lparr>pending_requests := pending_requests c - {s}\<rparr>)"
| "pop_pending c (JArr xs) = Inl TypeError"
| "pop_pending c (JObj kvs) = Inl TypeError"
| "pop_pending c v = Inr (None, c)"

text \<open>\<open>message.get("data", {})\<close>.\<close>

fun py_get_default :: "json \<Rightarrow> string \<Rightarrow> json \<Rightarrow> py_error + json" where
  "py_get_default (JObj kvs) key d = Inr (case map_of kvs key of None \<Rightarrow> d | Some v \<Rightarrow> v)"
| "py_get_default _ key d = Inl AttributeError"

text \<open>
  \<open>_handle_message\<close>. The result is the exception that leaves the method, if any, with
  the state at that point: what was popped before the exception stays popped. In the
  response branch the local name \<open>message\<close> is bound again, to the \<open>message\<close> field of
  the response or the empty string, before \<open>message.get("data")\<close> is evaluated; the
  two values are \<open>message\<close> and \<open>message'\<close> here.
\<close>

definition handle_message :: "socket_client \<Rightarrow> json \<Rightarrow> py_error option \<times> socket_client" where
  "handle_message c message =
     (case py_get message ''type'' of
        Inl e \<Rightarrow> (Some e, c)
      | Inr message_type \<Rightarrow>
          if message_type = JNull then (None, c)
          else if message_type = JStr ''response'' then
            (case py_get message ''request_id'' of
               Inl e \<Rightarrow> (Some e, c)
             | Inr request_id \<Rightarrow>
                 if \<not> truthy request_id then (None, c)
                 else
                   (case pop_pending c request_id of
                      Inl e \<Rightarrow> (Some e, c)
                    | Inr (None, c1) \<Rightarrow> (None, c1)
                    | Inr (Some rid, c1) \<Rightarrow>
                        if futures c1 rid \<noteq> Some Pending then (None, c1)
                        else
                          (case py_get message ''status'' of
                             Inl e \<Rightarrow> (Some e, c1)
                           | Inr status \<Rightarrow>
                               (case py_get message ''message'' of
                                  Inl e \<Rightarrow> (Some e, c1)
                                | Inr m \<Rightarrow>
                                    (let message' = py_or m (JStr [])
                                     in if status = JStr ''error''
                                        then (None, c1\<lparr>futures :=
                                                (futures c1)(rid \<mapsto> Done_exception message')\<rparr>)
                                        else
                                          (case py_get message' ''data'' of
                                             Inl e \<Rightarrow> (Some e, c1)
                                           | Inr d \<Rightarrow>
                                               (None, c1\<lparr>futures :=
                                                  (futures c1)(rid \<mapsto>
                                                     Done_result (py_or d (JObj [])))\<rparr>)))))))
          else
            (case py_get_default message ''data'' (JObj []) of
               Inl e \<Rightarrow> (Some e, c)
             | Inr data \<Rightarrow>
                 if has_callback c
                 then (None, c\<lparr>delivered := delivered c @ [(message_type, data)]\<rparr>)
                 else (None, c)))"

text \<open>
  What follows the \<open>while\<close> loop of \<open>_receiving_loop\<close>: the flag is cleared and, when it
  was set, the disconnection is notified, which marks the connection as closed by the
  server.
\<close>

definition loop_exit :: "socket_client \<Rightarrow> socket_client" where
  "loop_exit c =
     c\<lparr>connected := False,
       connection_closed_by_server := (connected c \<or> connection_closed_by_server c)\<rparr>"

text \<open>
  \<open>_receiving_loop\<close> over the results of the successive \<open>_receive_message()\<close> calls:
  \<open>None\<close> for a failed read, otherwise the decoded JSON value. The loop ends on a
  failed read, on a falsy message and on any exception of \<open>_handle_message\<close>. The
  result is the client's state and the messages not consumed; with the stream used up
  and the loop still running (it awaits the next message), the state is returned with
  \<open>connected\<close> still set.
\<close>

fun receiving_loop :: "socket_client \<Rightarrow> json option list \<Rightarrow> socket_client \<times> json option list" where
  "receiving_loop c [] = ((if connected c then c else loop_exit c), [])"
| "receiving_loop c (m # ms) =
     (if \<not> connected c then (loop_exit c, m # ms)
      else (case m of
              None \<Rightarrow> (loop_exit c, ms)
            | Some message \<Rightarrow>
                if \<not> truthy message then (loop_exit c, ms)
                else (case handle_message c message of
                        (Some e, c') \<Rightarrow> (loop_exit c', ms)
                      | (None, c') \<Rightarrow> receiving_loop c' ms)))"

subsection \<open>\<open>src/trader/order_cmd.py\<close>: \<open>SimpleSplitStrategy\<close> and \<open>OrderCmd.split\<close>\<close>

text \<open>
  Modelled from the spec: the module \<open>src/trader/order_cmd.py\<close> (\<open>OrderCmd\<close>,
  \<open>SimpleSplitStrategy\<close>, \<open>SplitOrder\<close>) is not among the sources, only its tests
  \<open>tests/test_order_cmd.py\<close> are. The definitions follow the splitting algorithm of the
  specification of the order command engine. Volumes are natural numbers. A slice is a
  volume tagged with an offset; the position snapshot is read for its today volume only.
\<close>

datatype offset_flag = OPEN | CLOSE | CLOSETODAY

record split_order =
  slice_volume :: nat
  slice_offset :: offset_flag

record position_data =
  today_volume :: nat

record order_cmd =
  offset :: offset_flag
  volume :: nat
  max_volume_per_order :: nat
  left_retry_times :: nat
  strategy :: "split_order list"

text \<open>
  Modelled from the spec: a quantity is divided into slices, "each of size
  \<open>max_volume_per_order\<close> except a final remainder slice".
\<close>

definition slices_of :: "nat \<Rightarrow> nat \<Rightarrow> offset_flag \<Rightarrow> split_order list" where
  "slices_of qty m off =
     replicate (qty div m) \<lparr>slice_volume = m, slice_offset = off\<rparr>
     @ (if qty mod m = 0 then [] else [\<lparr>slice_volume = qty mod m, slice_offset = off\<rparr>])"

text \<open>
  Modelled from the spec: for \<open>OPEN\<close> the full volume is divided and no position is
  needed; for \<open>CLOSE\<close>, \<open>today_qty = min(requested_volume, position.today_volume)\<close> is
  divided into slices tagged \<open>CLOSETODAY\<close>, then \<open>yesterday_qty = requested_volume -
  today_qty\<close> into slices tagged \<open>CLOSE\<close>. Where the specification is silent (a cap of
  zero, a close without a position snapshot, another offset) the result is \<open>None\<close>.
\<close>

definition split_slices :: "order_cmd \<Rightarrow> position_data option \<Rightarrow> split_order list option" where
  "split_slices cmd pos =
     (if max_volume_per_order cmd = 0 then None
      else (case offset cmd of
              OPEN \<Rightarrow> Some (slices_of (volume cmd) (max_volume_per_order cmd) OPEN)
            | CLOSE \<Rightarrow>
                (case pos of
                   None \<Rightarrow> None
                 | Some p \<Rightarrow>
                     (let today_qty = min (volume cmd) (today_volume p);
                          yesterday_qty = volume cmd - today_qty
                      in Some (slices_of today_qty (max_volume_per_order cmd) CLOSETODAY
                               @ slices_of yesterday_qty (max_volume_per_order cmd) CLOSE)))
            | CLOSETODAY \<Rightarrow> None))"

text \<open>
  Modelled from the spec: \<open>split()\<close> "returns the resulting slice count and seeds an
  internal retry budget: \<open>left_retry_times = 2 * slice_count + 1\<close>".
\<close>

definition split :: "order_cmd \<Rightarrow> position_data option \<Rightarrow> (nat \<times> order_cmd) option" where
  "split cmd pos =
     (case split_slices cmd pos of
        None \<Rightarrow> None
      | Some slices \<Rightarrow>
          Some (length slices,
                cmd\<lparr>strategy := slices, left_retry_times := 2 * length slices + 1\<rparr>))"

text \<open>
  Modelled from the spec: \<open>get_next()\<close> hands out the slices in the order they were
  produced and "returns no further slice" after the last one. \<open>get_next_n n\<close> is the
  results of \<open>n\<close> successive calls.
\<close>

definition get_next :: "split_order list \<Rightarrow> split_order option \<times> split_order list" where
  "get_next queue = (case queue of [] \<Rightarrow> (None, []) | s # rest \<Rightarrow> (Some s, rest))"

fun get_next_n :: "nat \<Rightarrow> split_order list \<Rightarrow> split_order option list" where
  "get_next_n 0 queue = []"
| "get_next_n (Suc n) queue = (case get_next queue of (r, queue') \<Rightarrow> r # get_next_n n queue')"

subsection \<open>\<open>src/services/log_watcher.py\<close>: \<open>LogWatcher\<close>\<close>

text \<open>
  The pattern of \<open>_parse_log_line\<close> is a sequence of single characters and of character
  classes, some of them repeated, so it is held as a list of items: \<open>One c\<close> is one
  character of class \<open>c\<close>, \<open>Many c\<close> is the greedy \<open>c*\<close>, \<open>Lazy c\<close> the lazy \<open>c*?\<close>,
  and \<open>c+\<close> is \<open>One c\<close> followed by \<open>Many c\<close> (\<open>c+?\<close>: by \<open>Lazy c\<close>). \<open>Mark\<close> stands at
  the two ends of the one group whose text the parser converts, the line number.
  \<open>re_exec\<close> is the backtracking search of \<open>re.match\<close>, anchored at the start of the line
  and free at its end: a greedy repetition tries the longer match first, a lazy one the
  shorter, and the first way that matches the whole pattern is the result, given as
  the rest of the line at each mark. The classes are those of Python on ASCII text:
  \<open>\d\<close> the ten digits, \<open>\w\<close> letters, digits and underscore, \<open>\s\<close> the characters for
  which \<open>str.isspace\<close> holds, and \<open>.\<close> any character but the newline.
\<close>

datatype cls = Digit | Word | Space | AnyChar | Lit char

datatype item = One cls | Many cls | Lazy cls | Mark

definition is_space :: "char \<Rightarrow> bool" where
  "is_space c =
     (c \<in> set [CHR 0x09, CHR 0x0A, CHR 0x0B, CHR 0x0C, CHR 0x0D,
                CHR 0x1C, CHR 0x1D, CHR 0x1E, CHR 0x1F, CHR 0x20])"

fun cls_mem :: "cls \<Rightarrow> char \<Rightarrow> bool" where
  "cls_mem Digit c = (c \<in> set ''0123456789'')"
| "cls_mem Word c =
     (c \<in> set ''abcdefghijklmnopqrstuvwxyzABCDEFGHIJKLMNOPQRSTUVWXYZ0123456789_'')"
| "cls_mem Space c = is_space c"
| "cls_mem AnyChar c = (c \<noteq> CHR 0x0A)"
| "cls_mem (Lit l) c = (c = l)"

fun re_exec :: "item list \<Rightarrow> string \<Rightarrow> string list option" where
  "re_exec [] s = Some []"
| "re_exec (Mark # p) s = map_option ((#) s) (re_exec p s)"
| "re_exec (One c # p) [] = None"
| "re_exec (One c # p) (x # xs) = (if cls_mem c x then re_exec p xs else None)"
| "re_exec (Many c # p) [] = re_exec p []"
| "re_exec (Many c # p) (x # xs) =
     (if cls_mem c x
      then (case re_exec (Many c # p) xs of
              Some marks \<Rightarrow> Some marks
            | None \<Rightarrow> re_exec p (x # xs))
      else re_exec p (x # xs))"
| "re_exec (Lazy c # p) [] = re_exec p []"
| "re_exec (Lazy c # p) (x # xs) =
     (case re_exec p (x # xs) of
        Some marks \<Rightarrow> Some marks
      | None \<Rightarrow> (if cls_mem c x then re_exec (Lazy c # p) xs else None))"

text \<open>
  \<^verbatim>\<open>(\d{4}-\d{2}-\d{2} \d{2}:\d{2}:\d{2}\.\d{3}) \| (\w+)\s+\| (.+?):(.+?):(\d+)\s*\| (.+)\<close>
\<close>

definition pattern :: "item list" where
  "pattern =
     replicate 4 (One Digit) @ [One (Lit CHR ''-'')] @ replicate 2 (One Digit)
     @ [One (Lit CHR ''-'')] @ replicate 2 (One Digit) @ [One (Lit CHR '' '')]
     @ replicate 2 (One Digit) @ [One (Lit CHR '':'')] @ replicate 2 (One Digit)
     @ [One (Lit CHR '':'')] @ replicate 2 (One Digit) @ [One (Lit CHR ''.'')]
     @ replicate 3 (One Digit)
     @ [One (Lit CHR '' ''), One (Lit CHR ''|''), One (Lit CHR '' ''),
        One Word, Many Word, One Space, Many Space,
        One (Lit CHR ''|''), One (Lit CHR '' ''),
        One AnyChar, Lazy AnyChar, One (Lit CHR '':''),
        One AnyChar, Lazy AnyChar, One (Lit CHR '':''),
        Mark, One Digit, Many Digit, Mark, Many Space,
        One (Lit CHR ''|''), One (Lit CHR '' ''),
        One AnyChar, Many AnyChar]"

text \<open>
  \<open>int(s)\<close> on a string of decimal digits raises \<open>ValueError\<close> when the string has more
  digits than the interpreter's limit for the conversion, 4300 unless configured
  otherwise.
\<close>

definition int_max_str_digits :: nat where
  "int_max_str_digits = 4300"

text \<open>
  \<open>_parse_log_line\<close> returns a dictionary of the groups, or \<open>None\<close> when the line does not
  match or when the conversion of the line number raises (the handler of the method
  catches it); the caller adds the line itself under \<open>raw\<close>. An entry is modelled by
  that raw line, and the parser by whether it returns a dictionary.
\<close>

definition parse_log_line :: "string \<Rightarrow> bool" where
  "parse_log_line line =
     (case re_exec pattern line of
        Some [before_number, after_number] \<Rightarrow>
          length before_number - length after_number \<le> int_max_str_digits
      | _ \<Rightarrow> False)"

text \<open>\<open>str.strip()\<close>.\<close>

definition strip :: "string \<Rightarrow> string" where
  "strip s = rev (dropWhile is_space (rev (dropWhile is_space s)))"

text \<open>The \<open>for line in lines\<close> loop of \<open>_read_new_lines\<close>.\<close>

fun collect_entries :: "string list \<Rightarrow> string list" where
  "collect_entries [] = []"
| "collect_entries (line # lines) =
     (let line' = strip line
      in if line' = [] then collect_entries lines
         else if parse_log_line line' then line' # collect_entries lines
         else collect_entries lines)"

text \<open>
  \<open>os.path.normpath\<close> on a POSIX system: empty components and \<open>.\<close> are dropped, \<open>..\<close>
  removes the component before it (and is kept at the start of a relative path), one
  or two leading slashes are kept and three or more become one, and the empty result
  is \<open>.\<close>.
\<close>

fun str_join :: "char \<Rightarrow> string list \<Rightarrow> string" where
  "str_join sep [] = []"
| "str_join sep [p] = p"
| "str_join sep (p # q # ps) = p @ sep # str_join sep (q # ps)"

definition startswith :: "string \<Rightarrow> string \<Rightarrow> bool" where
  "startswith s prefix = (take (length prefix) s = prefix)"

definition initial_slashes :: "string \<Rightarrow> nat" where
  "initial_slashes path =
     (if startswith path ''/''
      then (if startswith path ''//'' \<and> \<not> startswith path ''///'' then 2 else 1)
      else 0)"

fun norm_comps :: "nat \<Rightarrow> string list \<Rightarrow> string list \<Rightarrow> string list" where
  "norm_comps slashes new_comps [] = new_comps"
| "norm_comps slashes new_comps (component # comps) =
     (if component = [] \<or> component = ''.'' then norm_comps slashes new_comps comps
      else if component \<noteq> ''..'' \<or> (slashes = 0 \<and> new_comps = [])
                \<or> (new_comps \<noteq> [] \<and> last new_comps = ''..'')
        then norm_comps slashes (new_comps @ [component]) comps
      else if new_comps \<noteq> [] then norm_comps slashes (butlast new_comps) comps
      else norm_comps slashes new_comps comps)"

definition normpath :: "string \<Rightarrow> string" where
  "normpath path =
     (if path = [] then ''.''
      else
        (let comps = norm_comps (initial_slashes path) [] (str_split CHR ''/'' path);
             path' = replicate (initial_slashes path) CHR ''/'' @ str_join CHR ''/'' comps
         in if path' = [] then ''.'' else path'))"

text \<open>
  Component lists in normal form, as \<open>norm_comps\<close> leaves them: no empty component, no
  \<open>.\<close>, no slash inside a component, and \<open>..\<close> only in front of a relative path.
\<close>

definition good_comps :: "nat \<Rightarrow> string list \<Rightarrow> bool" where
  "good_comps i acc =
     ((\<forall>c \<in> set acc. c \<noteq> [] \<and> c \<noteq> ''.'' \<and> CHR ''/'' \<notin> set c)
      \<and> (if i = 0 then ''..'' \<notin> set (dropWhile (\<lambda>c. c = ''..'') acc)
          else ''..'' \<notin> set acc))"

text \<open>
  The watcher's state is \<open>file_position\<close>, from normalized path to offset. The file
  system is a map from path to content (\<open>open\<close> raises on a missing file, and the handler
  of \<open>_read_new_lines\<close> returns the empty list then). The file is opened in text mode:
  for a file of ASCII characters without carriage return, which this model is about,
  \<open>f.seek(start_pos)\<close> followed by \<open>f.read()\<close> gives the bytes from \<open>start_pos\<close> to the
  end of the file, one character each. For other content the text read has fewer
  characters than the file has bytes, and the position that the source computes from
  the length of the text is no longer a byte offset; the model does not cover it.
\<close>

record log_watcher =
  log_dir :: string
  file_position :: "string \<rightharpoonup> nat"

definition plain_text :: "string \<Rightarrow> bool" where
  "plain_text file = (\<forall>c \<in> set file. (of_char c :: nat) < 128 \<and> c \<noteq> CHR 0x0D)"

definition read_new_lines ::
  "(string \<rightharpoonup> string) \<Rightarrow> log_watcher \<Rightarrow> string \<Rightarrow> nat \<Rightarrow> string list \<times> log_watcher" where
  "read_new_lines fs w file_path start_pos =
     (case fs file_path of
        None \<Rightarrow> ([], w)
      | Some file \<Rightarrow>
          (let content = drop start_pos file
           in if content = [] then ([], w)
              else
                (let lines = str_split CHR 0x0A content;
                     entries = collect_entries lines;
                     new_pos = start_pos + length content
                 in (entries,
                     w\<lparr>file_position :=
                         (file_position w)(normpath file_path \<mapsto> new_pos)\<rparr>))))"

text \<open>
  \<open>os.path.join(log_dir, "app_<today>.log")\<close>, where \<open>today\<close> is the text of
  \<open>datetime.now().strftime("%Y-%m-%d")\<close>.
\<close>

definition get_today_log_file :: "log_watcher \<Rightarrow> string \<Rightarrow> string" where
  "get_today_log_file w today =
     (let name = ''app_'' @ today @ ''.log''
      in if log_dir w = [] then name
         else if last (log_dir w) = CHR ''/'' then log_dir w @ name
         else log_dir w @ ''/'' @ name)"

definition endswith :: "string \<Rightarrow> string \<Rightarrow> bool" where
  "endswith s suffix = (length suffix \<le> length s \<and> drop (length s - length suffix) s = suffix)"

text \<open>
  \<open>_on_file_modified\<close>: the first component of the result is the batch the callback is
  invoked with, or \<open>None\<close> when the callback is not invoked.
\<close>

definition on_file_modified ::
  "(string \<rightharpoonup> string) \<Rightarrow> string \<Rightarrow> log_watcher \<Rightarrow> string \<Rightarrow> string list option \<times> log_watcher" where
  "on_file_modified fs today w file_path =
     (if \<not> endswith file_path ''.log'' then (None, w)
      else
        (let today_log_file = get_today_log_file w today;
             normalized_path = normpath file_path;
             normalized_today = normpath today_log_file
         in if normalized_path \<noteq> normalized_today then (None, w)
            else
              (let last_pos = (case file_position w normalized_path of
                                 None \<Rightarrow> 0 | Some p \<Rightarrow> p);
                   (new_entries, w') = read_new_lines fs w normalized_path last_pos
               in if new_entries \<noteq> [] then (Some new_entries, w') else (None, w'))))"

subsection \<open>\<open>src/api/routes/alarm.py\<close>: \<open>get_alarm_stats\<close>\<close>

text \<open>
  A naive Python \<open>datetime\<close> is its seven fields; two of them compare field by field,
  from the year down. \<open>minus_hour\<close> is \<open>now - timedelta(hours=1)\<close> and \<open>minus_five_minutes\<close>
  is \<open>now - timedelta(minutes=5)\<close>, borrowing from the hour, the day, the month and the
  year as the calendar requires; below year 1 Python raises \<open>OverflowError\<close>, which is
  \<open>None\<close> here.
\<close>

record datetime =
  year :: nat
  month :: nat
  day :: nat
  hour :: nat
  minute :: nat
  second :: nat
  microsecond :: nat

definition is_leap :: "nat \<Rightarrow> bool" where
  "is_leap y = (y mod 4 = 0 \<and> (y mod 100 \<noteq> 0 \<or> y mod 400 = 0))"

definition days_in_month :: "nat \<Rightarrow> nat \<Rightarrow> nat" where
  "days_in_month y m =
     (if m = 2 then (if is_leap y then 29 else 28)
      else if m = 4 \<or> m = 6 \<or> m = 9 \<or> m = 11 then 30
      else 31)"

definition valid_datetime :: "datetime \<Rightarrow> bool" where
  "valid_datetime d =
     (1 \<le> year d \<and> year d \<le> 9999 \<and> 1 \<le> month d \<and> month d \<le> 12
      \<and> 1 \<le> day d \<and> day d \<le> days_in_month (year d) (month d)
      \<and> hour d < 24 \<and> minute d < 60 \<and> second d < 60 \<and> microsecond d < 1000000)"

fun lex_le :: "nat list \<Rightarrow> nat list \<Rightarrow> bool" where
  "lex_le [] ys = True"
| "lex_le (x # xs) [] = False"
| "lex_le (x # xs) (y # ys) = (x < y \<or> (x = y \<and> lex_le xs ys))"

definition dt_fields :: "datetime \<Rightarrow> nat list" where
  "dt_fields d = [year d, month d, day d, hour d, minute d, second d, microsecond d]"

text \<open>\<open>a >= b\<close> on two datetimes.\<close>

definition dt_ge :: "datetime \<Rightarrow> datetime \<Rightarrow> bool" where
  "dt_ge a b = lex_le (dt_fields b) (dt_fields a)"

definition prev_day :: "datetime \<Rightarrow> datetime option" where
  "prev_day d =
     (if 1 < day d then Some (d\<lparr>day := day d - 1\<rparr>)
      else if 1 < month d
        then Some (d\<lparr>month := month d - 1, day := days_in_month (year d) (month d - 1)\<rparr>)
      else if 1 < year d then Some (d\<lparr>year := year d - 1, month := 12, day := 31\<rparr>)
      else None)"

definition minus_hour :: "datetime \<Rightarrow> datetime option" where
  "minus_hour d =
     (if 1 \<le> hour d then Some (d\<lparr>hour := hour d - 1\<rparr>)
      else map_option (\<lambda>p. p\<lparr>hour := 23\<rparr>) (prev_day d))"

definition minus_five_minutes :: "datetime \<Rightarrow> datetime option" where
  "minus_five_minutes d =
     (if 5 \<le> minute d then Some (d\<lparr>minute := minute d - 5\<rparr>)
      else map_option (\<lambda>p. p\<lparr>minute := minute d + 55\<rparr>) (minus_hour d))"

text \<open>\<open>strftime("%Y-%m-%d")\<close>: zero-padded decimal fields (years from 1000 on).\<close>

definition digit_char :: "nat \<Rightarrow> char" where
  "digit_char n = ''0123456789'' ! (n mod 10)"

fun zero_pad :: "nat \<Rightarrow> nat \<Rightarrow> string" where
  "zero_pad 0 n = []"
| "zero_pad (Suc w) n = zero_pad w (n div 10) @ [digit_char n]"

definition strftime_Ymd :: "datetime \<Rightarrow> string" where
  "strftime_Ymd d =
     zero_pad 4 (year d) @ ''-'' @ zero_pad 2 (month d) @ ''-'' @ zero_pad 2 (day d)"

text \<open>
  The two columns of \<open>AlarmPo\<close> that the statistics read. The three queries of
  \<open>get_alarm_stats\<close> run on one snapshot of the table, the list \<open>alarms\<close>; \<open>now\<close> is the
  value of \<open>datetime.now()\<close>. An exception inside the \<open>try\<close> block becomes the error
  response with code 500.
\<close>

record alarm_po =
  alarm_date :: string
  created_at :: datetime

record alarm_stats_res =
  today_total :: nat
  last_hour :: nat
  last_five_minutes :: nat

definition get_alarm_stats :: "datetime \<Rightarrow> alarm_po list \<Rightarrow> int + alarm_stats_res" where
  "get_alarm_stats now alarms =
     (let today = strftime_Ymd now
      in case minus_hour now of
           None \<Rightarrow> Inl 500
         | Some one_hour_ago \<Rightarrow>
             (case minus_five_minutes now of
                None \<Rightarrow> Inl 500
              | Some five_minutes_ago \<Rightarrow>
                  Inr \<lparr>today_total = length (filter (\<lambda>a. alarm_date a = today) alarms),
                       last_hour =
                         length (filter (\<lambda>a. dt_ge (created_at a) one_hour_ago) alarms),
                       last_five_minutes =
                         length (filter (\<lambda>a. dt_ge (created_at a) five_minutes_ago) alarms)\<rparr>))"

subsection \<open>\<open>src/utils/wecomm.py\<close>: \<open>send_wechat\<close>\<close>

text \<open>
  The HTTP relay is outside the program, so its behaviour is an argument:
  \<open>requests.post\<close> either raises (no connection, timeout) or returns a response with a
  status code, a body text and the value of \<open>rsp.json()\<close>, which is \<open>None\<close> here when
  the body is not JSON (\<open>rsp.json()\<close> raises then). The result of \<open>send_wechat\<close> is the
  exception that leaves it, or the list of failures it logged: message and body text
  (\<open>rsp.text\<close>, the field \<open>rsp_text\<close>).
\<close>

record response =
  status_code :: int
  rsp_text :: string
  json_body :: "json option"

datatype relay = PostRaises | PostReturns response

definition send_wechat :: "string \<Rightarrow> relay \<Rightarrow> py_error + (string \<times> string) list" where
  "send_wechat msg r =
     (case r of
        PostRaises \<Rightarrow> Inl ConnectionError
      | PostReturns rsp \<Rightarrow>
          if status_code rsp \<noteq> 200 then Inr [(msg, rsp_text rsp)]
          else (case json_body rsp of
                  None \<Rightarrow> Inl JSONDecodeError
                | Some j \<Rightarrow>
                    (case py_getitem j ''errcode'' of
                       Inl e \<Rightarrow> Inl e
                     | Inr errcode \<Rightarrow>
                         if ne_zero errcode then Inr [(msg, rsp_text rsp)] else Inr [])))"

subsection \<open>\<open>src/adapters/tq_gateway.py\<close>: \<open>TqGateway._format_symbol\<close>\<close>

text \<open>
  \<open>str.upper\<close> on ASCII text maps \<open>a\<close>..\<open>z\<close> to \<open>A\<close>..\<open>Z\<close> and leaves every other
  character alone. \<open>exchange_map\<close> is the table built by \<open>_init_exchange_map\<close>.
\<close>

definition upper_char :: "char \<Rightarrow> char" where
  "upper_char c =
     (case map_of (zip ''abcdefghijklmnopqrstuvwxyz'' ''ABCDEFGHIJKLMNOPQRSTUVWXYZ'') c of
        None \<Rightarrow> c
      | Some u \<Rightarrow> u)"

definition upper :: "string \<Rightarrow> string" where
  "upper s = map upper_char s"

datatype exchange = SHFE | DCE | CZCE | CFFEX | INE | GFEX | NONE

definition exchange_map :: "string \<rightharpoonup> exchange" where
  "exchange_map =
     [''SHFE'' \<mapsto> SHFE, ''DCE'' \<mapsto> DCE, ''CZCE'' \<mapsto> CZCE,
      ''CFFEX'' \<mapsto> CFFEX, ''INE'' \<mapsto> INE, ''GFEX'' \<mapsto> GFEX]"

definition format_symbol :: "string \<Rightarrow> string option" where
  "format_symbol symbol =
     (if symbol = [] then None
      else if CHR ''.'' \<in> set symbol then
        (let parts = str_split CHR ''.'' symbol
         in if length parts = 2 then
              (if exchange_map (upper (parts ! 0)) \<noteq> None then Some symbol
               else if exchange_map (upper (parts ! 1)) \<noteq> None
                 then Some (upper (parts ! 1) @ ''.'' @ parts ! 0)
               else None)
            else None)
      else Some symbol)"

subsection \<open>\<open>src/utils/ipc/utils.py\<close>: \<open>BackoffStrategy\<close>\<close>

text \<open>
  The delays are Python floats; they are modelled as rationals, that is with exact
  arithmetic. The field \<open>_current_delay\<close> is \<open>current_delay\<close> here (an Isabelle
  name cannot start with an underscore).
\<close>

record backoff_strategy =
  initial_delay :: rat
  max_delay :: rat
  multiplier :: rat
  current_delay :: rat

definition BackoffStrategy :: "rat \<Rightarrow> rat \<Rightarrow> rat \<Rightarrow> backoff_strategy" where
  "BackoffStrategy i mx m =
     \<lparr>initial_delay = i, max_delay = mx, multiplier = m, current_delay = i\<rparr>"

definition get_delay :: "backoff_strategy \<Rightarrow> rat \<times> backoff_strategy" where
  "get_delay b =
     (let delay = current_delay b
      in (delay, b\<lparr>current_delay := min (current_delay b * multiplier b) (max_delay b)\<rparr>))"

definition reset :: "backoff_strategy \<Rightarrow> backoff_strategy" where
  "reset b = b\<lparr>current_delay := initial_delay b\<rparr>"

text \<open>The values returned by \<open>n\<close> successive calls of \<open>get_delay\<close>, in call order.\<close>

fun delays :: "nat \<Rightarrow> backoff_strategy \<Rightarrow> rat list" where
  "delays 0 b = []"
| "delays (Suc n) b = (case get_delay b of (d, b') \<Rightarrow> d # delays n b')"

subsection \<open>\<open>src/api/websocket_manager.py\<close>: \<open>WebSocketManager\<close>\<close>

text \<open>
  The manager holds two Python sets of socket objects and a flag. \<open>set.discard\<close>
  never raises, and the membership test only needs the socket to be hashable, so
  \<open>disconnect\<close> has no error branch; the two logger calls are not modelled.
\<close>

record 'ws websocket_manager =
  active_connections :: "'ws set"
  log_subscribers :: "'ws set"
  log_monitoring_enabled :: bool

definition disconnect :: "'ws \<Rightarrow> 'ws websocket_manager \<Rightarrow> 'ws websocket_manager" where
  "disconnect websocket m =
     (let m1 = m\<lparr>active_connections := active_connections m - {websocket}\<rparr>
      in if websocket \<in> log_subscribers m1
         then m1\<lparr>log_subscribers := log_subscribers m1 - {websocket}\<rparr>
         else m1)"

subsection \<open>\<open>src/utils/ipc/protocol.py\<close>: \<open>MessageProtocol\<close>\<close>

text \<open>
  The values a message can hold are Python values: those of JSON and raw byte strings
  (\<open>bytes\<close>, one \<open>char\<close> per byte). The fields of \<open>MessageBody\<close> are not type-checked
  by the dataclass, so apart from \<open>msg_type\<close> each is such a value; a message built by
  the convenience constructors has strings for \<open>request_id\<close> and \<open>timestamp\<close> and
  \<open>None\<close> or a string for \<open>error\<close>.
\<close>

datatype pyval =
  PNone
| PBool bool
| PNum rat
| PStr string
| PBytes string
| PList "pyval list"
| PDict "(string \<times> pyval) list"

datatype message_type = HEARTBEAT | REQUEST | RESPONSE | PUSH | ERROR

fun message_type_value :: "message_type \<Rightarrow> string" where
  "message_type_value HEARTBEAT = ''heartbeat''"
| "message_type_value REQUEST = ''request''"
| "message_type_value RESPONSE = ''response''"
| "message_type_value PUSH = ''push''"
| "message_type_value ERROR = ''error''"

text \<open>\<open>MessageType(value)\<close>: \<open>ValueError\<close> for a value that is no member's value.\<close>

definition MessageType :: "pyval \<Rightarrow> py_error + message_type" where
  "MessageType v =
     (if v = PStr ''heartbeat'' then Inr HEARTBEAT
      else if v = PStr ''request'' then Inr REQUEST
      else if v = PStr ''response'' then Inr RESPONSE
      else if v = PStr ''push'' then Inr PUSH
      else if v = PStr ''error'' then Inr ERROR
      else Inl ValueError)"

record message_body =
  msg_type :: message_type
  request_id :: pyval
  data :: pyval
  timestamp :: pyval
  error :: pyval

definition to_dict :: "message_body \<Rightarrow> pyval" where
  "to_dict m =
     PDict [(''msg_type'', PStr (message_type_value (msg_type m))),
            (''request_id'', request_id m),
            (''data'', data m),
            (''timestamp'', timestamp m),
            (''error'', error m)]"

text \<open>\<open>data[key]\<close> and \<open>data.get(key)\<close> on a decoded value.\<close>

fun pyval_getitem :: "pyval \<Rightarrow> string \<Rightarrow> py_error + pyval" where
  "pyval_getitem (PDict kvs) key =
     (case map_of kvs key of None \<Rightarrow> Inl KeyError | Some v \<Rightarrow> Inr v)"
| "pyval_getitem _ key = Inl TypeError"

fun pyval_get :: "pyval \<Rightarrow> string \<Rightarrow> py_error + pyval" where
  "pyval_get (PDict kvs) key = Inr (case map_of kvs key of None \<Rightarrow> PNone | Some v \<Rightarrow> v)"
| "pyval_get _ key = Inl AttributeError"

definition from_dict :: "pyval \<Rightarrow> py_error + message_body" where
  "from_dict d =
     (case pyval_getitem d ''msg_type'' of
        Inl e \<Rightarrow> Inl e
      | Inr t \<Rightarrow>
     (case MessageType t of
        Inl e \<Rightarrow> Inl e
      | Inr mt \<Rightarrow>
     (case pyval_getitem d ''request_id'' of
        Inl e \<Rightarrow> Inl e
      | Inr rid \<Rightarrow>
     (case pyval_getitem d ''data'' of
        Inl e \<Rightarrow> Inl e
      | Inr dat \<Rightarrow>
     (case pyval_getitem d ''timestamp'' of
        Inl e \<Rightarrow> Inl e
      | Inr ts \<Rightarrow>
     (case pyval_get d ''error'' of
        Inl e \<Rightarrow> Inl e
      | Inr err \<Rightarrow>
          Inr \<lparr>msg_type = mt, request_id = rid, data = dat, timestamp = ts,
               error = err\<rparr>))))))"

text \<open>
  \<open>bytes.hex()\<close> and \<open>bytes.fromhex()\<close>: two lower-case digits per byte; \<open>fromhex\<close> takes
  digits of either case, skips ASCII white space between bytes, and raises \<open>ValueError\<close>
  (here \<open>None\<close>) on anything else.
\<close>

definition hex_digit :: "nat \<Rightarrow> char" where
  "hex_digit n = ''0123456789abcdef'' ! (n mod 16)"

definition hex :: "string \<Rightarrow> string" where
  "hex b = concat (map (\<lambda>c. [hex_digit (of_char c div 16), hex_digit (of_char c)]) b)"

definition hex_value :: "char \<Rightarrow> nat option" where
  "hex_value c =
     map_of (zip ''0123456789abcdefABCDEF''
                 [0, 1, 2, 3, 4, 5, 6, 7, 8, 9, 10, 11, 12, 13, 14, 15, 10, 11, 12, 13, 14, 15]) c"

definition is_ascii_space :: "char \<Rightarrow> bool" where
  "is_ascii_space c = (c \<in> set [CHR 0x09, CHR 0x0A, CHR 0x0B, CHR 0x0C, CHR 0x0D, CHR 0x20])"

fun fromhex :: "string \<Rightarrow> string option" where
  "fromhex [] = Some []"
| "fromhex [c] = (if is_ascii_space c then Some [] else None)"
| "fromhex (c # d # cs) =
     (if is_ascii_space c then fromhex (d # cs)
      else (case (hex_value c, hex_value d) of
              (Some h, Some l) \<Rightarrow> map_option ((#) (char_of (16 * h + l))) (fromhex cs)
            | _ \<Rightarrow> None))"

text \<open>
  \<open>MessageEncoder.default\<close>, the hook of the encoder class that the module defines and
  \<open>MessageProtocol.__init__\<close> instantiates (the \<open>datetime\<close> case is not modelled; other
  values raise \<open>TypeError\<close> in the base class).
\<close>

definition MessageEncoder_default :: "pyval \<Rightarrow> py_error + pyval" where
  "MessageEncoder_default obj =
     (case obj of PBytes b \<Rightarrow> Inr (PDict [(''__bytes__'', PStr (hex b))]) | _ \<Rightarrow> Inl TypeError)"

text \<open>\<open>message_decode_hook\<close>, applied by \<open>json.loads\<close> to every decoded object.\<close>

definition message_decode_hook :: "(string \<times> pyval) list \<Rightarrow> py_error + pyval" where
  "message_decode_hook dct =
     (case map_of dct ''__bytes__'' of
        None \<Rightarrow> Inr (PDict dct)
      | Some (PStr h) \<Rightarrow> (case fromhex h of None \<Rightarrow> Inl ValueError | Some b \<Rightarrow> Inr (PBytes b))
      | Some _ \<Rightarrow> Inl TypeError)"

text \<open>
  Serialization is modelled on values: \<open>dumps\<close> gives the JSON value whose UTF-8 text
  \<open>json.dumps(..., ignore_nan=True, default=str)\<close> writes, and \<open>loads\<close> is
  \<open>json.loads(..., object_hook=message_decode_hook)\<close> on the value that text denotes.
  The text itself and the 4-byte length prefix around it are not modelled. \<open>encode\<close>
  calls the \<open>simplejson\<close> function \<open>dumps\<close>, not the encoder object: \<open>simplejson\<close>
  writes a \<open>bytes\<close> value as the JSON string of its UTF-8 decoding (its \<open>encoding\<close>
  parameter defaults to UTF-8) and raises \<open>UnicodeDecodeError\<close> when the bytes are not
  UTF-8; this model of Python text holds ASCII only, so bytes outside ASCII are all
  given that error here.
\<close>

fun sequence :: "('e + 'a) list \<Rightarrow> 'e + 'a list" where
  "sequence [] = Inr []"
| "sequence (r # rs) =
     (case r of
        Inl e \<Rightarrow> Inl e
      | Inr x \<Rightarrow> (case sequence rs of Inl e \<Rightarrow> Inl e | Inr xs \<Rightarrow> Inr (x # xs)))"

fun dumps :: "pyval \<Rightarrow> py_error + json" where
  "dumps PNone = Inr JNull"
| "dumps (PBool b) = Inr (JBool b)"
| "dumps (PNum r) = Inr (JNum r)"
| "dumps (PStr s) = Inr (JStr s)"
| "dumps (PBytes b) =
     (if list_all (\<lambda>c. (of_char c :: nat) < 128) b then Inr (JStr b) else Inl UnicodeDecodeError)"
| "dumps (PList xs) = map_sum id JArr (sequence (map dumps xs))"
| "dumps (PDict kvs) =
     map_sum id JObj
       (sequence (map (\<lambda>(k, v). map_sum id (Pair k) (dumps v)) kvs))"

fun loads :: "json \<Rightarrow> py_error + pyval" where
  "loads JNull = Inr PNone"
| "loads (JBool b) = Inr (PBool b)"
| "loads (JNum r) = Inr (PNum r)"
| "loads (JStr s) = Inr (PStr s)"
| "loads (JArr xs) = map_sum id PList (sequence (map loads xs))"
| "loads (JObj kvs) =
     (case sequence (map (\<lambda>(k, v). map_sum id (Pair k) (loads v)) kvs) of
        Inl e \<Rightarrow> Inl e
      | Inr dct \<Rightarrow> message_decode_hook dct)"

definition encode :: "message_body \<Rightarrow> py_error + json" where
  "encode message = dumps (to_dict message)"

text \<open>
  \<open>decode\<close> returns \<open>None\<close> on the exceptions its handler names (of which only
  \<open>UnicodeDecodeError\<close> exists at this level); a \<open>KeyError\<close>, \<open>TypeError\<close> or
  \<open>ValueError\<close> of the hook or of \<open>from_dict\<close> leaves it.
\<close>

definition decode :: "json \<Rightarrow> py_error + message_body option" where
  "decode j =
     (case loads j of
        Inl e \<Rightarrow> (if e = UnicodeDecodeError \<or> e = JSONDecodeError then Inr None else Inl e)
      | Inr message_dict \<Rightarrow>
          (case from_dict message_dict of
             Inl e \<Rightarrow>
               (if e = UnicodeDecodeError \<or> e = JSONDecodeError then Inr None else Inl e)
           | Inr m \<Rightarrow> Inr (Some m)))"

text \<open>
  Values that JSON represents as they are: no byte string, and no \<open>dict\<close> with the key
  that the decode hook takes for the tag of a byte string.
\<close>

fun json_safe :: "pyval \<Rightarrow> bool" where
  "json_safe (PBytes b) = False"
| "json_safe (PList xs) = list_all json_safe xs"
| "json_safe (PDict kvs) =
     (map_of kvs ''__bytes__'' = None \<and> list_all (\<lambda>(k, v). json_safe v) kvs)"
| "json_safe v = True"


section \<open>Verified properties\<close>

subsection \<open>\<open>MessageProtocol.encode\<close> and \<open>MessageProtocol.decode\<close>\<close>

text \<open>
  The tagged form that \<open>MessageEncoder.default\<close> produces for a byte string is what
  \<open>message_decode_hook\<close> reverses: through the encoder class, byte strings would
  round-trip.
\<close>

lemma hex_digit_value:
  assumes "k < 16"
  shows "hex_value (hex_digit k) = Some k \<and> \<not> is_ascii_space (hex_digit k)"
proof -
  from assms have "k \<in> {0, 1, 2, 3, 4, 5, 6, 7, 8, 9, 10, 11, 12, 13, 14, 15}"
    by (simp add: less_Suc_eq eval_nat_numeral)
  then show ?thesis
    by (elim insertE emptyE) (simp_all add: hex_value_def hex_digit_def is_ascii_space_def)
qed

lemma char_of_nibbles: "char_of (16 * ((of_char c :: nat) div 16) + of_char c mod 16) = c"
  by simp

lemma fromhex_hex: "fromhex (hex b) = Some b"
proof (induction b)
  case Nil
  show ?case by (simp add: hex_def)
next
  case (Cons c b)
  let ?n = "of_char c :: nat"
  have n: "?n < 256" by simp
  then have hi: "?n div 16 < 16" by arith
  have lo: "?n mod 16 < 16" by simp
  have d2: "hex_digit ?n = hex_digit (?n mod 16)"
    by (simp add: hex_digit_def)
  have unfold: "hex (c # b) = hex_digit (?n div 16) # hex_digit (?n mod 16) # hex b"
    by (simp add: hex_def d2 [symmetric])
  show ?case
    unfolding unfold
    using hex_digit_value [OF hi] hex_digit_value [OF lo] Cons.IH
    by (simp add: char_of_nibbles)
qed

lemma tagged_bytes_roundtrip:
  "MessageEncoder_default (PBytes b) = Inr (PDict [(''__bytes__'', PStr (hex b))])
   \<and> dumps (PDict [(''__bytes__'', PStr (hex b))]) = Inr (JObj [(''__bytes__'', JStr (hex b))])
   \<and> loads (JObj [(''__bytes__'', JStr (hex b))]) = Inr (PBytes b)"
  by (simp add: MessageEncoder_default_def message_decode_hook_def fromhex_hex)

lemma sequence_roundtrip:
  "(\<And>x. x \<in> set xs \<Longrightarrow> \<exists>y. f x = Inr y \<and> g y = Inr x)
     \<Longrightarrow> \<exists>ys. sequence (map f xs) = Inr ys \<and> sequence (map g ys) = Inr xs"
proof (induction xs)
  case Nil
  show ?case by simp
next
  case (Cons x xs)
  from Cons.prems obtain y where y: "f x = Inr y" "g y = Inr x" by auto
  from Cons.IH Cons.prems obtain ys where
    ys: "sequence (map f xs) = Inr ys" "sequence (map g ys) = Inr xs" by auto
  show ?case
    by (rule exI [of _ "y # ys"]) (simp add: y ys)
qed

lemma dumps_loads:
  "json_safe v \<Longrightarrow> \<exists>j. dumps v = Inr j \<and> loads j = Inr v"
proof (induction v)
  case (PList xs)
  have "\<exists>ys. sequence (map dumps xs) = Inr ys \<and> sequence (map loads ys) = Inr xs"
  proof (rule sequence_roundtrip)
    fix x assume "x \<in> set xs"
    with PList show "\<exists>y. dumps x = Inr y \<and> loads y = Inr x"
      by (auto simp: list_all_iff)
  qed
  then show ?case by auto
next
  case (PDict kvs)
  let ?f = "\<lambda>(k, v). map_sum id (Pair k) (dumps v)"
  let ?g = "\<lambda>(k, v). map_sum id (Pair k) (loads v)"
  have "\<exists>ys. sequence (map ?f kvs) = Inr ys \<and> sequence (map ?g ys) = Inr kvs"
  proof (rule sequence_roundtrip)
    fix x assume x: "x \<in> set kvs"
    obtain k v where kv: "x = (k, v)" by (cases x)
    with x PDict.prems have "json_safe v" by (auto simp: list_all_iff)
    with PDict.IH [of x v] x kv obtain j where "dumps v = Inr j" "loads j = Inr v" by auto
    then show "\<exists>y. ?f x = Inr y \<and> ?g y = Inr x"
      by (intro exI [of _ "(k, j)"]) (simp add: kv)
  qed
  then obtain ys where "sequence (map ?f kvs) = Inr ys" "sequence (map ?g ys) = Inr kvs"
    by blast
  moreover from PDict.prems have "map_of kvs ''__bytes__'' = None" by simp
  ultimately show ?case
    by (simp add: message_decode_hook_def)
qed simp_all

lemma MessageType_value: "MessageType (PStr (message_type_value t)) = Inr t"
  by (cases t) (simp_all add: MessageType_def)

lemma from_dict_to_dict: "from_dict (to_dict m) = Inr m"
  by (simp add: from_dict_def to_dict_def MessageType_value)

text \<open>
  For messages without byte strings (and without an object that carries the tag key)
  the round trip holds.
\<close>

lemma encode_decode_json_safe:
  assumes "json_safe (request_id m)" "json_safe (data m)" "json_safe (timestamp m)"
    "json_safe (error m)"
  shows "\<exists>j. encode m = Inr j \<and> decode j = Inr (Some m)"
proof -
  have "json_safe (to_dict m)"
    using assms by (simp add: to_dict_def)
  then obtain j where "dumps (to_dict m) = Inr j" "loads j = Inr (to_dict m)"
    using dumps_loads by blast
  then show ?thesis
    by (simp add: encode_def decode_def from_dict_to_dict)
qed

text \<open>
  A message whose data is a byte string never comes back: whenever \<open>encode\<close> succeeds,
  the data field is written as a JSON string and read back as a \<open>str\<close>.
\<close>

lemma map_sum_Pair_Inr:
  "map_sum id (Pair k) r = Inr p \<longleftrightarrow> (\<exists>x. r = Inr x \<and> p = (k, x))"
  by (cases r) auto

lemma encode_decode_bytes_data:
  assumes "data m = PBytes b" and "encode m = Inr j"
  shows "decode j \<noteq> Inr (Some m)"
proof -
  from assms obtain j1 j3 j4 where
    j: "j = JObj [(''msg_type'', JStr (message_type_value (msg_type m))),
                  (''request_id'', j1), (''data'', JStr b), (''timestamp'', j3),
                  (''error'', j4)]"
    by (auto simp: encode_def to_dict_def map_sum_Pair_Inr split: sum.splits if_splits)
  show ?thesis
  proof
    assume "decode j = Inr (Some m)"
    then have "data m = PStr b"
      unfolding j
      by (auto simp: decode_def from_dict_def message_decode_hook_def map_sum_Pair_Inr
          split: sum.splits if_splits)
    with assms(1) show False by simp
  qed
qed

text \<open>
  C1. The claim: decoding what \<open>encode\<close> produces gives back the message, byte-valued
  fields included. The code does not do this for byte strings: \<open>encode\<close> serializes with
  the plain \<open>dumps\<close> function (the call of the encoder object is commented out), so the
  request with data \<open>{"payload": b"ab"}\<close> is written with the JSON string \<open>"ab"\<close> and
  decoded with the \<open>str\<close> \<open>"ab"\<close> in place of the bytes. The tagged object that the
  decode hook expects would have restored them.
\<close>

theorem encode_decode_loses_bytes:
  "encode \<lparr>msg_type = REQUEST, request_id = PStr ''r1'',
           data = PDict [(''payload'', PBytes ''ab'')],
           timestamp = PStr ''2024-01-01T10:00:00.000001'', error = PNone\<rparr>
     = Inr (JObj [(''msg_type'', JStr ''request''), (''request_id'', JStr ''r1''),
                  (''data'', JObj [(''payload'', JStr ''ab'')]),
                  (''timestamp'', JStr ''2024-01-01T10:00:00.000001''),
                  (''error'', JNull)])
   \<and> decode (JObj [(''msg_type'', JStr ''request''), (''request_id'', JStr ''r1''),
                  (''data'', JObj [(''payload'', JStr ''ab'')]),
                  (''timestamp'', JStr ''2024-01-01T10:00:00.000001''),
                  (''error'', JNull)])
     = Inr (Some \<lparr>msg_type = REQUEST, request_id = PStr ''r1'',
                    data = PDict [(''payload'', PStr ''ab'')],
                    timestamp = PStr ''2024-01-01T10:00:00.000001'', error = PNone\<rparr>)
   \<and> PDict [(''payload'', PStr ''ab'')] \<noteq> PDict [(''payload'', PBytes ''ab'')]
   \<and> decode (JObj [(''msg_type'', JStr ''request''), (''request_id'', JStr ''r1''),
                  (''data'', JObj [(''payload'', JObj [(''__bytes__'', JStr ''6162'')])]),
                  (''timestamp'', JStr ''2024-01-01T10:00:00.000001''),
                  (''error'', JNull)])
     = Inr (Some \<lparr>msg_type = REQUEST, request_id = PStr ''r1'',
                    data = PDict [(''payload'', PBytes ''ab'')],
                    timestamp = PStr ''2024-01-01T10:00:00.000001'', error = PNone\<rparr>)"
  by code_simp

subsection \<open>\<open>SocketClient._handle_message\<close> and \<open>SocketClient._receiving_loop\<close>\<close>

text \<open>
  The error path of a response does what the source intends: the future of the pending
  request is completed with the failure, and nothing is raised.
\<close>

lemma handle_message_error_response:
  assumes "map_of kvs ''type'' = Some (JStr ''response'')"
    and "map_of kvs ''request_id'' = Some (JStr rid)" and "rid \<noteq> []"
    and "rid \<in> pending_requests c" and "futures c rid = Some Pending"
    and "map_of kvs ''status'' = Some (JStr ''error'')"
  shows "handle_message c (JObj kvs) =
           (None, c\<lparr>pending_requests := pending_requests c - {rid},
                     futures := (futures c)(rid \<mapsto> Done_exception
                        (py_or (case map_of kvs ''message'' of None \<Rightarrow> JNull | Some v \<Rightarrow> v)
                               (JStr [])))\<rparr>)"
  using assms by (simp add: handle_message_def Let_def)

text \<open>
  The success path does not: once \<open>message\<close> is bound to the text of the \<open>message\<close>
  field (or to the empty string), \<open>message.get("data")\<close> raises \<open>AttributeError\<close> for
  every response whose \<open>message\<close> field is not a non-empty object. The request has been
  popped and its future is still pending.
\<close>

lemma handle_message_success_response:
  assumes "map_of kvs ''type'' = Some (JStr ''response'')"
    and "map_of kvs ''request_id'' = Some (JStr rid)" and "rid \<noteq> []"
    and "rid \<in> pending_requests c" and "futures c rid = Some Pending"
    and "map_of kvs ''status'' \<noteq> Some (JStr ''error'')"
    and "\<forall>kvs'. map_of kvs ''message'' \<noteq> Some (JObj kvs')"
  shows "handle_message c (JObj kvs) =
           (Some AttributeError, c\<lparr>pending_requests := pending_requests c - {rid}\<rparr>)"
proof -
  let ?m = "case map_of kvs ''message'' of None \<Rightarrow> JNull | Some v \<Rightarrow> v"
  have "\<forall>kvs'. py_or ?m (JStr []) \<noteq> JObj kvs'"
    using assms(7) by (auto simp: py_or_def split: option.splits)
  then have "py_get (py_or ?m (JStr [])) ''data'' = Inl AttributeError"
    by (cases "py_or ?m (JStr [])") simp_all
  moreover have "(case map_of kvs ''status'' of None \<Rightarrow> JNull | Some v \<Rightarrow> v) \<noteq> JStr ''error''"
    using assms(6) by (auto split: option.splits)
  ultimately show ?thesis
    using assms(1-5) by (simp add: handle_message_def Let_def)
qed

text \<open>
  C2. The claim: a response that carries the id of a pending request and whose status
  is not \<open>error\<close> resolves the request with the response's data, and the receive loop
  goes on. The code does not do this. With request \<open>r1\<close> pending, the response
  \<open>{"type": "response", "request_id": "r1", "status": "ok", "data": {"a": 1}}\<close>
  makes \<open>_handle_message\<close> raise \<open>AttributeError\<close>: the request is popped, its future
  stays pending, the receive loop ends with \<open>connected\<close> cleared, and the push message
  that follows on the connection is never processed.
\<close>

theorem success_response_breaks_receiving_loop:
  "fst (handle_message
         \<lparr>connected = True, pending_requests = {''r1''}, futures = [''r1'' \<mapsto> Pending],
          has_callback = True, delivered = [], connection_closed_by_server = False\<rparr>
         (JObj [(''type'', JStr ''response''), (''request_id'', JStr ''r1''),
                (''status'', JStr ''ok''), (''data'', JObj [(''a'', JNum 1)])]))
     = Some AttributeError
   \<and> futures (snd (handle_message
         \<lparr>connected = True, pending_requests = {''r1''}, futures = [''r1'' \<mapsto> Pending],
          has_callback = True, delivered = [], connection_closed_by_server = False\<rparr>
         (JObj [(''type'', JStr ''response''), (''request_id'', JStr ''r1''),
                (''status'', JStr ''ok''), (''data'', JObj [(''a'', JNum 1)])]))) ''r1''
     = Some Pending
   \<and> pending_requests (snd (handle_message
         \<lparr>connected = True, pending_requests = {''r1''}, futures = [''r1'' \<mapsto> Pending],
          has_callback = True, delivered = [], connection_closed_by_server = False\<rparr>
         (JObj [(''type'', JStr ''response''), (''request_id'', JStr ''r1''),
                (''status'', JStr ''ok''), (''data'', JObj [(''a'', JNum 1)])])))
     = {}
   \<and> \<not> connected (fst (receiving_loop
         \<lparr>connected = True, pending_requests = {''r1''}, futures = [''r1'' \<mapsto> Pending],
          has_callback = True, delivered = [], connection_closed_by_server = False\<rparr>
         [Some (JObj [(''type'', JStr ''response''), (''request_id'', JStr ''r1''),
                (''status'', JStr ''ok''), (''data'', JObj [(''a'', JNum 1)])]),
          Some (JObj [(''type'', JStr ''tick''), (''data'', JObj [(''p'', JNum 2)])])]))
   \<and> delivered (fst (receiving_loop
         \<lparr>connected = True, pending_requests = {''r1''}, futures = [''r1'' \<mapsto> Pending],
          has_callback = True, delivered = [], connection_closed_by_server = False\<rparr>
         [Some (JObj [(''type'', JStr ''response''), (''request_id'', JStr ''r1''),
                (''status'', JStr ''ok''), (''data'', JObj [(''a'', JNum 1)])]),
          Some (JObj [(''type'', JStr ''tick''), (''data'', JObj [(''p'', JNum 2)])])]))
     = []
   \<and> snd (receiving_loop
         \<lparr>connected = True, pending_requests = {''r1''}, futures = [''r1'' \<mapsto> Pending],
          has_callback = True, delivered = [], connection_closed_by_server = False\<rparr>
         [Some (JObj [(''type'', JStr ''response''), (''request_id'', JStr ''r1''),
                (''status'', JStr ''ok''), (''data'', JObj [(''a'', JNum 1)])]),
          Some (JObj [(''type'', JStr ''tick''), (''data'', JObj [(''p'', JNum 2)])])])
     = [Some (JObj [(''type'', JStr ''tick''), (''data'', JObj [(''p'', JNum 2)])])]"
  by code_simp

subsection \<open>\<open>SimpleSplitStrategy\<close> and \<open>OrderCmd.split\<close>\<close>

lemma ceil_div_aux:
  assumes "0 < (m::nat)" and "r < m"
  shows "(d * m + r + m - 1) div m = d + (if r = 0 then 0 else 1)"
proof (cases "r = 0")
  case True
  have "d * m + r + m - 1 = (m - 1) + d * m" using assms True by simp
  then have "(d * m + r + m - 1) div m = ((m - 1) + d * m) div m" by (rule arg_cong)
  also have "\<dots> = d + (m - 1) div m"
    by (rule div_mult_self1) (use assms in simp)
  also have "(m - 1) div m = 0" using assms by simp
  finally show ?thesis using True by simp
next
  case False
  have "d * m + r + m - 1 = (r - 1) + (d + 1) * m" using assms False by simp
  then have "(d * m + r + m - 1) div m = ((r - 1) + (d + 1) * m) div m" by (rule arg_cong)
  also have "\<dots> = (d + 1) + (r - 1) div m"
    by (rule div_mult_self1) (use assms in simp)
  also have "(r - 1) div m = 0" using assms by simp
  finally show ?thesis using False by simp
qed

lemma ceil_div:
  assumes "0 < (m::nat)"
  shows "(q + m - 1) div m = q div m + (if q mod m = 0 then 0 else 1)"
proof -
  have "(q div m * m + q mod m + m - 1) div m
          = q div m + (if q mod m = 0 then 0 else 1)"
    by (rule ceil_div_aux) (use assms in simp_all)
  then show ?thesis by simp
qed

lemma slices_of_length: "0 < m \<Longrightarrow> length (slices_of q m off) = (q + m - 1) div m"
  by (simp only: ceil_div) (simp add: slices_of_def)

lemma slices_of_offset: "s \<in> set (slices_of q m off) \<Longrightarrow> slice_offset s = off"
  by (auto simp: slices_of_def split: if_splits)

lemma slices_of_volume: "sum_list (map slice_volume (slices_of q m off)) = q"
proof -
  have whole: "q div m * m + q mod m = q"
    by simp
  show ?thesis
  proof (cases "q mod m = 0")
    case True
    with whole have "q div m * m = q" by simp
    with True show ?thesis by (simp add: slices_of_def sum_list_replicate)
  next
    case False
    with whole show ?thesis by (simp add: slices_of_def sum_list_replicate)
  qed
qed

lemma slices_of_bound:
  "0 < m \<Longrightarrow> s \<in> set (slices_of q m off) \<Longrightarrow> 0 < slice_volume s \<and> slice_volume s \<le> m"
  by (auto simp: slices_of_def split: if_splits)

lemma get_next_n_all: "get_next_n (Suc (length queue)) queue = map Some queue @ [None]"
  by (induction queue) (simp_all add: get_next_def)

text \<open>
  C3. For every \<open>CLOSE\<close> command with requested volume \<open>V\<close>, cap \<open>M > 0\<close> and a
  position snapshot with today volume \<open>T\<close>, \<open>split\<close> produces \<open>ceil(min(V,T)/M)\<close>
  slices tagged \<open>CLOSETODAY\<close>, which sum to \<open>min(V,T)\<close>, followed by
  \<open>ceil((V - min(V,T))/M)\<close> slices tagged \<open>CLOSE\<close>, which sum to the rest; \<open>get_next\<close>
  yields them in that order, all today-lot slices before any yesterday-lot slice, and
  returns no slice after the last one. With \<open>V = 80\<close>, \<open>T = 50\<close>, \<open>M = 10\<close> these are 5
  \<open>CLOSETODAY\<close> slices and then 3 \<open>CLOSE\<close> slices of volume 10, 8 in all.
\<close>

theorem close_split_today_then_yesterday:
  "(offset cmd = CLOSE \<and> 0 < max_volume_per_order cmd \<longrightarrow>
      (\<exists>today_slices yesterday_slices.
          split cmd (Some pos)
            = Some (length (today_slices @ yesterday_slices),
                    cmd\<lparr>strategy := today_slices @ yesterday_slices,
                        left_retry_times :=
                          2 * length (today_slices @ yesterday_slices) + 1\<rparr>)
          \<and> length today_slices
              = (min (volume cmd) (today_volume pos) + max_volume_per_order cmd - 1)
                  div max_volume_per_order cmd
          \<and> length yesterday_slices
              = (volume cmd - min (volume cmd) (today_volume pos)
                   + max_volume_per_order cmd - 1) div max_volume_per_order cmd
          \<and> (\<forall>s \<in> set today_slices. slice_offset s = CLOSETODAY)
          \<and> (\<forall>s \<in> set yesterday_slices. slice_offset s = CLOSE)
          \<and> sum_list (map slice_volume today_slices) = min (volume cmd) (today_volume pos)
          \<and> sum_list (map slice_volume yesterday_slices)
              = volume cmd - min (volume cmd) (today_volume pos)
          \<and> get_next_n (Suc (length (today_slices @ yesterday_slices)))
                (today_slices @ yesterday_slices)
              = map Some today_slices @ map Some yesterday_slices @ [None]))
   \<and> map_option (\<lambda>(n, c). (n, strategy c))
        (split \<lparr>offset = CLOSE, volume = 80, max_volume_per_order = 10,
                 left_retry_times = 0, strategy = []\<rparr> (Some \<lparr>today_volume = 50\<rparr>))
       = Some (8, replicate 5 \<lparr>slice_volume = 10, slice_offset = CLOSETODAY\<rparr>
                  @ replicate 3 \<lparr>slice_volume = 10, slice_offset = CLOSE\<rparr>)"
proof (intro conjI impI)
  assume close: "offset cmd = CLOSE \<and> 0 < max_volume_per_order cmd"
  let ?M = "max_volume_per_order cmd"
  let ?today_qty = "min (volume cmd) (today_volume pos)"
  let ?ts = "slices_of ?today_qty ?M CLOSETODAY"
  let ?ys = "slices_of (volume cmd - ?today_qty) ?M CLOSE"
  have run: "split cmd (Some pos)
               = Some (length (?ts @ ?ys),
                       cmd\<lparr>strategy := ?ts @ ?ys,
                           left_retry_times := 2 * length (?ts @ ?ys) + 1\<rparr>)"
    using close by (simp add: split_def split_slices_def Let_def)
  have "get_next_n (Suc (length (?ts @ ?ys))) (?ts @ ?ys) = map Some (?ts @ ?ys) @ [None]"
    by (rule get_next_n_all)
  then have order: "get_next_n (Suc (length (?ts @ ?ys))) (?ts @ ?ys)
                      = map Some ?ts @ map Some ?ys @ [None]"
    by simp
  show "\<exists>today_slices yesterday_slices.
          split cmd (Some pos)
            = Some (length (today_slices @ yesterday_slices),
                    cmd\<lparr>strategy := today_slices @ yesterday_slices,
                        left_retry_times :=
                          2 * length (today_slices @ yesterday_slices) + 1\<rparr>)
          \<and> length today_slices = (?today_qty + ?M - 1) div ?M
          \<and> length yesterday_slices = (volume cmd - ?today_qty + ?M - 1) div ?M
          \<and> (\<forall>s \<in> set today_slices. slice_offset s = CLOSETODAY)
          \<and> (\<forall>s \<in> set yesterday_slices. slice_offset s = CLOSE)
          \<and> sum_list (map slice_volume today_slices) = ?today_qty
          \<and> sum_list (map slice_volume yesterday_slices) = volume cmd - ?today_qty
          \<and> get_next_n (Suc (length (today_slices @ yesterday_slices)))
                (today_slices @ yesterday_slices)
              = map Some today_slices @ map Some yesterday_slices @ [None]"
  proof (rule exI [of _ ?ts], rule exI [of _ ?ys], intro conjI ballI)
    show "split cmd (Some pos)
            = Some (length (?ts @ ?ys),
                    cmd\<lparr>strategy := ?ts @ ?ys,
                        left_retry_times := 2 * length (?ts @ ?ys) + 1\<rparr>)"
      by (rule run)
    show "length ?ts = (?today_qty + ?M - 1) div ?M"
      using close by (intro slices_of_length) simp
    show "length ?ys = (volume cmd - ?today_qty + ?M - 1) div ?M"
      using close by (intro slices_of_length) simp
    show "slice_offset s = CLOSETODAY" if "s \<in> set ?ts" for s
      using that by (rule slices_of_offset)
    show "slice_offset s = CLOSE" if "s \<in> set ?ys" for s
      using that by (rule slices_of_offset)
    show "sum_list (map slice_volume ?ts) = ?today_qty"
      by (rule slices_of_volume)
    show "sum_list (map slice_volume ?ys) = volume cmd - ?today_qty"
      by (rule slices_of_volume)
    show "get_next_n (Suc (length (?ts @ ?ys))) (?ts @ ?ys)
            = map Some ?ts @ map Some ?ys @ [None]"
      by (rule order)
  qed
next
  show "map_option (\<lambda>(n, c). (n, strategy c))
        (split \<lparr>offset = CLOSE, volume = 80, max_volume_per_order = 10,
                 left_retry_times = 0, strategy = []\<rparr> (Some \<lparr>today_volume = 50\<rparr>))
       = Some (8, replicate 5 \<lparr>slice_volume = 10, slice_offset = CLOSETODAY\<rparr>
                  @ replicate 3 \<lparr>slice_volume = 10, slice_offset = CLOSE\<rparr>)"
    by code_simp
qed

theorem close_split_today_then_yesterday_witness:
  "get_next_n 9
     (replicate 5 \<lparr>slice_volume = 10, slice_offset = CLOSETODAY\<rparr>
      @ replicate 3 \<lparr>slice_volume = 10, slice_offset = CLOSE\<rparr>)
     = map Some (replicate 5 \<lparr>slice_volume = 10, slice_offset = CLOSETODAY\<rparr>)
       @ map Some (replicate 3 \<lparr>slice_volume = 10, slice_offset = CLOSE\<rparr>) @ [None]
   \<and> map_option (\<lambda>(n, c). (n, left_retry_times c))
        (split \<lparr>offset = CLOSE, volume = 25, max_volume_per_order = 10,
                 left_retry_times = 0, strategy = []\<rparr> (Some \<lparr>today_volume = 7\<rparr>))
       = Some (3, 7)"
proof -
  have "get_next_n 9
     (replicate 5 \<lparr>slice_volume = 10, slice_offset = CLOSETODAY\<rparr>
      @ replicate 3 \<lparr>slice_volume = 10, slice_offset = CLOSE\<rparr>)
     = map Some (replicate 5 \<lparr>slice_volume = 10, slice_offset = CLOSETODAY\<rparr>)
       @ map Some (replicate 3 \<lparr>slice_volume = 10, slice_offset = CLOSE\<rparr>) @ [None]"
    by code_simp
  moreover from close_split_today_then_yesterday
    [of "\<lparr>offset = CLOSE, volume = 25, max_volume_per_order = 10,
          left_retry_times = 0, strategy = []\<rparr>" "\<lparr>today_volume = 7\<rparr>"]
  obtain ts ys where
    "split \<lparr>offset = CLOSE, volume = 25, max_volume_per_order = 10,
             left_retry_times = 0, strategy = []\<rparr> (Some \<lparr>today_volume = 7\<rparr>)
       = Some (length (ts @ ys),
               \<lparr>offset = CLOSE, volume = 25, max_volume_per_order = 10,
                left_retry_times = 0, strategy = []\<rparr>
               \<lparr>strategy := ts @ ys, left_retry_times := 2 * length (ts @ ys) + 1\<rparr>)"
    "length ts = (min 25 7 + 10 - 1) div 10"
    "length ys = (25 - min 25 7 + 10 - 1) div 10"
    by auto
  ultimately show ?thesis by simp
qed

text \<open>
  C4. For every order command whose \<open>split()\<close> produces \<open>N\<close> slices, the retry budget
  \<open>_left_retry_times\<close> (here \<open>left_retry_times\<close>) is \<open>2 * N + 1\<close> right after the call;
  the three commands of the tests give \<open>N = 1\<close>, \<open>N = 8\<close> and \<open>N = 10\<close> with budgets 3,
  17 and 21.
\<close>

theorem split_seeds_retry_budget:
  "(split cmd pos = Some (n, cmd') \<longrightarrow>
      length (strategy cmd') = n \<and> left_retry_times cmd' = 2 * n + 1)
   \<and> map_option (\<lambda>(n, c). (n, left_retry_times c))
        (split \<lparr>offset = OPEN, volume = 10, max_volume_per_order = 10,
                 left_retry_times = 0, strategy = []\<rparr> None) = Some (1, 3)
   \<and> map_option (\<lambda>(n, c). (n, left_retry_times c))
        (split \<lparr>offset = CLOSE, volume = 80, max_volume_per_order = 10,
                 left_retry_times = 0, strategy = []\<rparr> (Some \<lparr>today_volume = 50\<rparr>))
       = Some (8, 17)
   \<and> map_option (\<lambda>(n, c). (n, left_retry_times c))
        (split \<lparr>offset = OPEN, volume = 100, max_volume_per_order = 10,
                 left_retry_times = 0, strategy = []\<rparr> None) = Some (10, 21)"
proof (intro conjI impI)
  assume "split cmd pos = Some (n, cmd')"
  then show "length (strategy cmd') = n" and "left_retry_times cmd' = 2 * n + 1"
    by (auto simp: split_def split: option.splits)
qed code_simp+

theorem split_seeds_retry_budget_witness:
  "split \<lparr>offset = OPEN, volume = 25, max_volume_per_order = 10,
           left_retry_times = 0, strategy = []\<rparr> None
     = Some (3, \<lparr>offset = OPEN, volume = 25, max_volume_per_order = 10,
                  left_retry_times = 7,
                  strategy = [\<lparr>slice_volume = 10, slice_offset = OPEN\<rparr>,
                              \<lparr>slice_volume = 10, slice_offset = OPEN\<rparr>,
                              \<lparr>slice_volume = 5, slice_offset = OPEN\<rparr>]\<rparr>)
   \<and> left_retry_times
         \<lparr>offset = OPEN, volume = 25, max_volume_per_order = 10, left_retry_times = 7,
          strategy = [\<lparr>slice_volume = 10, slice_offset = OPEN\<rparr>,
                      \<lparr>slice_volume = 10, slice_offset = OPEN\<rparr>,
                      \<lparr>slice_volume = 5, slice_offset = OPEN\<rparr>]\<rparr> = 2 * 3 + 1"
proof -
  have run: "split \<lparr>offset = OPEN, volume = 25, max_volume_per_order = 10,
           left_retry_times = 0, strategy = []\<rparr> None
     = Some (3, \<lparr>offset = OPEN, volume = 25, max_volume_per_order = 10,
                  left_retry_times = 7,
                  strategy = [\<lparr>slice_volume = 10, slice_offset = OPEN\<rparr>,
                              \<lparr>slice_volume = 10, slice_offset = OPEN\<rparr>,
                              \<lparr>slice_volume = 5, slice_offset = OPEN\<rparr>]\<rparr>)"
    by code_simp
  from split_seeds_retry_budget
    [of "\<lparr>offset = OPEN, volume = 25, max_volume_per_order = 10,
          left_retry_times = 0, strategy = []\<rparr>" None 3
        "\<lparr>offset = OPEN, volume = 25, max_volume_per_order = 10, left_retry_times = 7,
          strategy = [\<lparr>slice_volume = 10, slice_offset = OPEN\<rparr>,
                      \<lparr>slice_volume = 10, slice_offset = OPEN\<rparr>,
                      \<lparr>slice_volume = 5, slice_offset = OPEN\<rparr>]\<rparr>"] run
  show ?thesis by blast
qed

subsection \<open>\<open>os.path.normpath\<close>\<close>

text \<open>
  Normalizing twice is normalizing once, so the key under which \<open>_read_new_lines\<close>
  stores the position is the key under which \<open>_on_file_modified\<close> looks it up.
\<close>

lemma str_split_no_sep: "p \<in> set (str_split sep s) \<Longrightarrow> sep \<notin> set p"
  by (induction s arbitrary: p) (auto split: if_splits list.splits)

lemma str_split_plain: "sep \<notin> set p \<Longrightarrow> str_split sep p = [p]"
  by (induction p) auto

lemma str_split_append_sep:
  "sep \<notin> set p \<Longrightarrow> str_split sep (p @ sep # s) = p # str_split sep s"
  by (induction p) auto

lemma str_split_join:
  "comps \<noteq> [] \<Longrightarrow> \<forall>c \<in> set comps. sep \<notin> set c
     \<Longrightarrow> str_split sep (str_join sep comps) = comps"
  by (induction sep comps rule: str_join.induct)
     (simp_all add: str_split_plain str_split_append_sep)

lemma str_split_leading_seps:
  "str_split sep (replicate k sep @ s) = replicate k [] @ str_split sep s"
  by (induction k) simp_all

lemma str_split_only_seps: "str_split sep (replicate k sep) = replicate k [] @ [[]]"
  using str_split_leading_seps [of sep k "[]"] by simp

lemma norm_comps_skip_empty:
  "norm_comps i acc (replicate k [] @ comps) = norm_comps i acc comps"
  by (induction k) simp_all

lemma str_join_no_leading_sep:
  "\<forall>c \<in> set comps. c \<noteq> [] \<and> sep \<notin> set c \<Longrightarrow> str_join sep comps \<noteq> sep # rest"
proof (cases comps)
  case Nil
  then show ?thesis by simp
next
  case (Cons p ps)
  assume a: "\<forall>c \<in> set comps. c \<noteq> [] \<and> sep \<notin> set c"
  with Cons obtain x xs where p: "p = x # xs" "x \<noteq> sep"
    by (cases p) auto
  show ?thesis
    using Cons p by (cases ps) auto
qed

lemma dropWhile_last: "dropWhile P xs \<noteq> [] \<Longrightarrow> last (dropWhile P xs) = last xs"
  by (induction xs) (auto split: if_splits)

lemma set_dropWhile_butlast: "set (dropWhile P (butlast xs)) \<subseteq> set (dropWhile P xs)"
  by (induction xs) (auto dest: in_set_butlastD)

lemma good_append_plain:
  assumes "good_comps i acc" "c \<noteq> []" "c \<noteq> ''.''" "c \<noteq> ''..''" "CHR ''/'' \<notin> set c"
  shows "good_comps i (acc @ [c])"
  using assms by (auto simp: good_comps_def dropWhile_append split: if_splits)

lemma good_append_dotdot:
  assumes "good_comps i acc"
    and "(i = 0 \<and> acc = []) \<or> (acc \<noteq> [] \<and> last acc = ''..'')"
  shows "good_comps i (acc @ [''..''])"
proof (cases "i = 0")
  case True
  have all: "\<forall>c \<in> set acc. c = ''..''"
  proof (cases "acc = []")
    case True
    then show ?thesis by simp
  next
    case False
    with assms(2) have l: "last acc = ''..''" by simp
    have "dropWhile (\<lambda>c. c = ''..'') acc = []"
    proof (rule ccontr)
      assume ne: "dropWhile (\<lambda>c. c = ''..'') acc \<noteq> []"
      then have "last (dropWhile (\<lambda>c. c = ''..'') acc) = ''..''"
        using l by (simp add: dropWhile_last)
      then have "''..'' \<in> set (dropWhile (\<lambda>c. c = ''..'') acc)"
        using ne last_in_set by metis
      with assms(1) True show False by (simp add: good_comps_def)
    qed
    then show ?thesis by (simp add: dropWhile_eq_Nil_conv)
  qed
  then have "dropWhile (\<lambda>c. c = ''..'') (acc @ [''..'']) = []"
    by (simp add: dropWhile_eq_Nil_conv)
  moreover have "\<forall>c \<in> set (acc @ [''..'']). c \<noteq> [] \<and> c \<noteq> ''.'' \<and> CHR ''/'' \<notin> set c"
    using assms(1) by (auto simp: good_comps_def)
  ultimately show ?thesis using True by (simp add: good_comps_def)
next
  case False
  with assms(2) have "acc \<noteq> []" "last acc = ''..''" by auto
  then have "''..'' \<in> set acc" using last_in_set by metis
  with assms(1) False show ?thesis by (simp add: good_comps_def)
qed

lemma good_butlast: "good_comps i acc \<Longrightarrow> good_comps i (butlast acc)"
  using set_dropWhile_butlast [of "\<lambda>c. c = ''..''" acc]
  by (auto simp: good_comps_def dest: in_set_butlastD)

lemma norm_comps_good:
  "good_comps i acc \<Longrightarrow> \<forall>c \<in> set comps. CHR ''/'' \<notin> set c
     \<Longrightarrow> good_comps i (norm_comps i acc comps)"
proof (induction comps arbitrary: acc)
  case Nil
  then show ?case by simp
next
  case (Cons c comps)
  from Cons.prems(2) have rest: "\<forall>c \<in> set comps. CHR ''/'' \<notin> set c"
    and c: "CHR ''/'' \<notin> set c" by simp_all
  consider (skip) "c = [] \<or> c = ''.''"
    | (plain) "c \<noteq> []" "c \<noteq> ''.''" "c \<noteq> ''..''"
    | (keep) "c = ''..''" "(i = 0 \<and> acc = []) \<or> (acc \<noteq> [] \<and> last acc = ''..'')"
    | (pop) "c = ''..''" "\<not> ((i = 0 \<and> acc = []) \<or> (acc \<noteq> [] \<and> last acc = ''..''))"
        "acc \<noteq> []"
    | (root) "c = ''..''" "\<not> ((i = 0 \<and> acc = []) \<or> (acc \<noteq> [] \<and> last acc = ''..''))"
        "acc = []"
    by blast
  then show ?case
  proof cases
    case skip
    then show ?thesis using Cons.IH [OF Cons.prems(1) rest] by auto
  next
    case plain
    have "good_comps i (acc @ [c])"
      using Cons.prems(1) plain c by (rule good_append_plain)
    from Cons.IH [OF this rest] show ?thesis using plain by simp
  next
    case keep
    have "good_comps i (acc @ [''..''])"
      using Cons.prems(1) keep(2) by (rule good_append_dotdot)
    from Cons.IH [OF this rest] show ?thesis using keep by auto
  next
    case pop
    have "good_comps i (butlast acc)"
      using Cons.prems(1) by (rule good_butlast)
    from Cons.IH [OF this rest] show ?thesis using pop by auto
  next
    case root
    then show ?thesis using Cons.IH [OF Cons.prems(1) rest] by auto
  qed
qed

lemma norm_comps_fixed:
  "\<forall>c \<in> set comps. c \<noteq> [] \<and> c \<noteq> ''.''
   \<Longrightarrow> (if i = 0 then ''..'' \<notin> set (dropWhile (\<lambda>c. c = ''..'') (acc @ comps))
        else ''..'' \<notin> set comps)
   \<Longrightarrow> norm_comps i acc comps = acc @ comps"
proof (induction comps arbitrary: acc)
  case Nil
  show ?case by simp
next
  case (Cons c comps)
  have next_ok: "if i = 0 then ''..'' \<notin> set (dropWhile (\<lambda>c. c = ''..'') ((acc @ [c]) @ comps))
                 else ''..'' \<notin> set comps"
    using Cons.prems(2) by (auto split: if_splits)
  have rest: "\<forall>c \<in> set comps. c \<noteq> [] \<and> c \<noteq> ''.''"
    using Cons.prems(1) by simp
  have IH: "norm_comps i (acc @ [c]) comps = acc @ c # comps"
    using Cons.IH [OF rest next_ok] by simp
  have c: "c \<noteq> []" "c \<noteq> ''.''" using Cons.prems(1) by simp_all
  show ?case
  proof (cases "c = ''..''")
    case False
    then show ?thesis using c IH by simp
  next
    case True
    have i0: "i = 0"
      using Cons.prems(2) True by (auto split: if_splits)
    have "\<forall>x \<in> set acc. x = ''..''"
    proof (rule ccontr)
      assume "\<not> (\<forall>x \<in> set acc. x = ''..'')"
      then have "dropWhile (\<lambda>c. c = ''..'') (acc @ c # comps)
                   = dropWhile (\<lambda>c. c = ''..'') acc @ c # comps"
        by (auto simp: dropWhile_append)
      with Cons.prems(2) i0 True show False by simp
    qed
    then have "acc = [] \<or> (acc \<noteq> [] \<and> last acc = ''..'')"
      by (cases "acc = []") auto
    then show ?thesis using True i0 IH by auto
  qed
qed

lemma initial_slashes_le: "initial_slashes path \<le> 2"
  by (simp add: initial_slashes_def)

lemma initial_slashes_replicate:
  assumes "i \<le> 2" and "\<And>r. rest \<noteq> CHR ''/'' # r"
  shows "initial_slashes (replicate i CHR ''/'' @ rest) = i"
proof -
  from assms(1) consider "i = 0" | "i = 1" | "i = 2" by linarith
  then show ?thesis
  proof cases
    case 1
    then show ?thesis
      using assms(2) by (cases rest) (auto simp: initial_slashes_def startswith_def)
  next
    case 2
    then show ?thesis
      using assms(2) by (cases rest) (auto simp: initial_slashes_def startswith_def)
  next
    case 3
    then show ?thesis
      using assms(2)
      by (cases rest) (auto simp: initial_slashes_def startswith_def numeral_2_eq_2)
  qed
qed

lemma normpath_dot: "normpath ''.'' = ''.''"
  by (simp add: normpath_def initial_slashes_def startswith_def)

lemma normpath_idem: "normpath (normpath path) = normpath path"
proof (cases "path = []")
  case True
  then have "normpath path = ''.''" by (simp add: normpath_def)
  then show ?thesis by (simp add: normpath_dot)
next
  case False
  let ?i = "initial_slashes path"
  let ?comps = "norm_comps ?i [] (str_split CHR ''/'' path)"
  let ?q = "replicate ?i CHR ''/'' @ str_join CHR ''/'' ?comps"
  have good: "good_comps ?i ?comps"
    by (rule norm_comps_good) (auto simp: good_comps_def dest: str_split_no_sep)
  then have comps: "\<forall>c \<in> set ?comps. c \<noteq> [] \<and> CHR ''/'' \<notin> set c"
    and plain: "\<forall>c \<in> set ?comps. c \<noteq> [] \<and> c \<noteq> ''.''"
    by (auto simp: good_comps_def)
  have unfold: "normpath path = (if ?q = [] then ''.'' else ?q)"
    using False by (simp only: normpath_def Let_def if_False)
  show ?thesis
  proof (cases "?q = []")
    case True
    have "normpath path = ''.''" by (simp only: unfold True) simp
    then show ?thesis by (simp add: normpath_dot)
  next
    case q: False
    have np: "normpath path = ?q" by (simp only: unfold q if_False)
    have slashes: "initial_slashes ?q = ?i"
      by (rule initial_slashes_replicate [OF initial_slashes_le])
         (rule str_join_no_leading_sep [OF comps])
    have renorm: "norm_comps ?i [] (str_split CHR ''/'' ?q) = ?comps"
    proof (cases "?comps = []")
      case True
      then show ?thesis
        by (simp add: str_split_only_seps norm_comps_skip_empty)
    next
      case ne: False
      have "str_split CHR ''/'' (str_join CHR ''/'' ?comps) = ?comps"
        using ne comps by (intro str_split_join) auto
      moreover have "norm_comps ?i [] ?comps = [] @ ?comps"
        using plain good by (intro norm_comps_fixed) (auto simp: good_comps_def)
      ultimately show ?thesis
        by (simp add: str_split_leading_seps norm_comps_skip_empty)
    qed
    have "normpath ?q = (if ?q = [] then ''.'' else ?q)"
      using q by (simp only: normpath_def Let_def if_False slashes renorm)
    then have "normpath ?q = ?q"
      by (simp only: q if_False)
    then show ?thesis by (simp add: np)
  qed
qed

subsection \<open>\<open>LogWatcher._on_file_modified\<close>\<close>

lemma collect_entries_nonempty:
  "collect_entries lines \<noteq> [] \<longleftrightarrow>
     (\<exists>line \<in> set lines. strip line \<noteq> [] \<and> parse_log_line (strip line))"
  by (induction lines) (auto simp: Let_def)

lemma on_file_modified_today:
  assumes "endswith file_path ''.log''"
    and "normpath file_path = normpath (get_today_log_file w today)"
    and "fs (normpath file_path) = Some bytes"
  shows "on_file_modified fs today w file_path =
     (let last_pos = (case file_position w (normpath file_path) of
                        None \<Rightarrow> 0 | Some p \<Rightarrow> p);
          content = drop last_pos bytes;
          entries = collect_entries (str_split CHR 0x0A content)
      in (if entries \<noteq> [] then Some entries else None,
          if content = [] then w
          else w\<lparr>file_position :=
                   (file_position w)(normpath file_path \<mapsto> last_pos + length content)\<rparr>))"
proof (cases "drop (case file_position w (normpath file_path) of
                       None \<Rightarrow> 0 | Some p \<Rightarrow> p) bytes = []")
  case True
  then show ?thesis
    using assms
    by (simp add: on_file_modified_def read_new_lines_def Let_def strip_def
        del: drop_eq_Nil drop_eq_Nil2)
next
  case False
  then show ?thesis
    using assms
    by (simp add: on_file_modified_def read_new_lines_def Let_def normpath_idem
        del: drop_eq_Nil drop_eq_Nil2)
qed

text \<open>
  C5 as stated fails in its last part. The offset always moves to the end of what was
  read, an unterminated last line included. Here the file first ends in the middle of
  a line, then the line is completed: the first event delivers nothing (the fragment
  does not parse) and records offset 43, the second event reads only the remainder,
  which does not parse either, so the line is never delivered although as a whole it
  parses.
\<close>

theorem partial_line_counterexample:
  "fst (on_file_modified
          [''logs/app_2024-01-01.log'' \<mapsto> ''2024-01-01 10:00:00.123 | INFO     | app:ru'']
          ''2024-01-01'' \<lparr>log_dir = ''logs'', file_position = Map.empty\<rparr>
          ''logs/app_2024-01-01.log'') = None
   \<and> file_position
         (snd (on_file_modified
                 [''logs/app_2024-01-01.log'' \<mapsto> ''2024-01-01 10:00:00.123 | INFO     | app:ru'']
                 ''2024-01-01'' \<lparr>log_dir = ''logs'', file_position = Map.empty\<rparr>
                 ''logs/app_2024-01-01.log''))
         ''logs/app_2024-01-01.log'' = Some 43
   \<and> fst (on_file_modified
          [''logs/app_2024-01-01.log'' \<mapsto>
             ''2024-01-01 10:00:00.123 | INFO     | app:run:42 | done'' @ [CHR 0x0A]]
          ''2024-01-01''
          (snd (on_file_modified
                 [''logs/app_2024-01-01.log'' \<mapsto> ''2024-01-01 10:00:00.123 | INFO     | app:ru'']
                 ''2024-01-01'' \<lparr>log_dir = ''logs'', file_position = Map.empty\<rparr>
                 ''logs/app_2024-01-01.log''))
          ''logs/app_2024-01-01.log'') = None
   \<and> parse_log_line ''2024-01-01 10:00:00.123 | INFO     | app:run:42 | done''"
  by code_simp

text \<open>
  C5, amended. For every modification event whose path ends in \<open>.log\<close> and normalizes
  to the normalized path of today's log file (a file of ASCII text with newline line
  ends), the watcher reads from the last recorded offset to end-of-file, invokes the
  callback, with the parsed lines, only when at least one non-blank line of what it
  read parsed successfully, and advances the recorded offset by exactly the number of
  bytes it read, whether or not a line parsed (by nothing when the recorded offset is
  at or beyond the end of the file). When the recorded offset does not exceed the
  length of the file, the new offset is the end of the file, so an unterminated last
  line is consumed by this read, and the next event reads only what was appended after
  it. The claim leaves aside files with other than ASCII content, where the source
  advances by characters of the decoded text and not by bytes.
\<close>

theorem log_watcher_event:
  "endswith file_path ''.log''
   \<and> normpath file_path = normpath (get_today_log_file w today)
   \<and> fs (normpath file_path) = Some bytes \<and> plain_text bytes
   \<and> last_pos = (case file_position w (normpath file_path) of None \<Rightarrow> 0 | Some p \<Rightarrow> p)
   \<and> content = drop last_pos bytes
   \<and> on_file_modified fs today w file_path = (batch, w')
   \<longrightarrow>
     batch = (if collect_entries (str_split CHR 0x0A content) = [] then None
              else Some (collect_entries (str_split CHR 0x0A content)))
     \<and> (batch \<noteq> None \<longleftrightarrow>
          (\<exists>line \<in> set (str_split CHR 0x0A content).
              strip line \<noteq> [] \<and> parse_log_line (strip line)))
     \<and> (case file_position w' (normpath file_path) of None \<Rightarrow> 0 | Some p \<Rightarrow> p)
          = last_pos + length content
     \<and> (last_pos \<le> length bytes \<longrightarrow>
          (case file_position w' (normpath file_path) of None \<Rightarrow> 0 | Some p \<Rightarrow> p)
            = length bytes
          \<and> (\<forall>more. plain_text more \<longrightarrow>
                fst (on_file_modified (fs(normpath file_path \<mapsto> bytes @ more)) today w'
                       file_path)
                  = (if collect_entries (str_split CHR 0x0A more) = [] then None
                     else Some (collect_entries (str_split CHR 0x0A more)))))"
proof (intro impI, elim conjE)
  assume ends: "endswith file_path ''.log''"
    and path: "normpath file_path = normpath (get_today_log_file w today)"
    and content_of: "fs (normpath file_path) = Some bytes"
    and last_pos: "last_pos = (case file_position w (normpath file_path) of
                                 None \<Rightarrow> 0 | Some p \<Rightarrow> p)"
    and content: "content = drop last_pos bytes"
    and run: "on_file_modified fs today w file_path = (batch, w')"
  let ?key = "normpath file_path"
  let ?entries = "collect_entries (str_split CHR 0x0A content)"
  from on_file_modified_today [of file_path w today fs bytes, OF ends path content_of] run
  have batch: "batch = (if ?entries \<noteq> [] then Some ?entries else None)"
    and w': "w' = (if content = [] then w
                   else w\<lparr>file_position :=
                            (file_position w)(?key \<mapsto> last_pos + length content)\<rparr>)"
    unfolding last_pos content by (simp_all add: Let_def)
  have dir: "log_dir w' = log_dir w"
    by (simp add: w')
  have "get_today_log_file w' today = get_today_log_file w today"
    by (simp only: get_today_log_file_def dir)
  with path have path': "normpath file_path = normpath (get_today_log_file w' today)"
    by simp
  have pos: "(case file_position w' ?key of None \<Rightarrow> 0 | Some p \<Rightarrow> p)
               = last_pos + length content"
    by (simp add: w' last_pos)
  have end_pos: "(case file_position w' ?key of None \<Rightarrow> 0 | Some p \<Rightarrow> p) = length bytes"
    if "last_pos \<le> length bytes"
    using that by (simp add: pos content)
  have next_read:
    "fst (on_file_modified (fs(?key \<mapsto> bytes @ more)) today w' file_path)
       = (if collect_entries (str_split CHR 0x0A more) = [] then None
          else Some (collect_entries (str_split CHR 0x0A more)))"
    if le: "last_pos \<le> length bytes" for more
  proof -
    have "(fs(?key \<mapsto> bytes @ more)) ?key = Some (bytes @ more)"
      by simp
    from on_file_modified_today
      [of file_path w' today "fs(?key \<mapsto> bytes @ more)" "bytes @ more", OF ends path' this]
    show ?thesis
      by (simp add: Let_def end_pos [OF le])
  qed
  show "batch = (if ?entries = [] then None else Some ?entries)
     \<and> (batch \<noteq> None \<longleftrightarrow>
          (\<exists>line \<in> set (str_split CHR 0x0A content).
              strip line \<noteq> [] \<and> parse_log_line (strip line)))
     \<and> (case file_position w' ?key of None \<Rightarrow> 0 | Some p \<Rightarrow> p)
          = last_pos + length content
     \<and> (last_pos \<le> length bytes \<longrightarrow>
          (case file_position w' ?key of None \<Rightarrow> 0 | Some p \<Rightarrow> p) = length bytes
          \<and> (\<forall>more. plain_text more \<longrightarrow>
                fst (on_file_modified (fs(?key \<mapsto> bytes @ more)) today w' file_path)
                  = (if collect_entries (str_split CHR 0x0A more) = [] then None
                     else Some (collect_entries (str_split CHR 0x0A more)))))"
  proof (intro conjI impI allI)
    show "batch = (if ?entries = [] then None else Some ?entries)"
      by (simp add: batch)
    show "batch \<noteq> None \<longleftrightarrow>
          (\<exists>line \<in> set (str_split CHR 0x0A content).
              strip line \<noteq> [] \<and> parse_log_line (strip line))"
      using collect_entries_nonempty [of "str_split CHR 0x0A content"] by (simp add: batch)
    show "(case file_position w' ?key of None \<Rightarrow> 0 | Some p \<Rightarrow> p)
            = last_pos + length content"
      by (rule pos)
  next
    assume "last_pos \<le> length bytes"
    then show "(case file_position w' ?key of None \<Rightarrow> 0 | Some p \<Rightarrow> p) = length bytes"
      by (rule end_pos)
  next
    fix more
    assume "last_pos \<le> length bytes"
    then show "fst (on_file_modified (fs(?key \<mapsto> bytes @ more)) today w' file_path)
                  = (if collect_entries (str_split CHR 0x0A more) = [] then None
                     else Some (collect_entries (str_split CHR 0x0A more)))"
      by (rule next_read)
  qed
qed

theorem log_watcher_event_witness:
  "fst (on_file_modified
          [''logs/app_2024-01-01.log'' \<mapsto>
             ''2024-01-01 10:00:00.123 | INFO     | app:run:42 | done'' @ [CHR 0x0A]]
          ''2024-01-01'' \<lparr>log_dir = ''./logs'', file_position = Map.empty\<rparr>
          ''./logs/app_2024-01-01.log'')
     = Some [''2024-01-01 10:00:00.123 | INFO     | app:run:42 | done'']
   \<and> (case file_position
           (snd (on_file_modified
                  [''logs/app_2024-01-01.log'' \<mapsto>
                     ''2024-01-01 10:00:00.123 | INFO     | app:run:42 | done'' @ [CHR 0x0A]]
                  ''2024-01-01'' \<lparr>log_dir = ''./logs'', file_position = Map.empty\<rparr>
                  ''./logs/app_2024-01-01.log''))
           ''logs/app_2024-01-01.log'' of None \<Rightarrow> 0 | Some p \<Rightarrow> p) = 55
   \<and> fst (on_file_modified
          ([''logs/app_2024-01-01.log'' \<mapsto>
             ''2024-01-01 10:00:00.123 | INFO     | app:run:42 | done'' @ [CHR 0x0A]]
           (''logs/app_2024-01-01.log'' \<mapsto>
             (''2024-01-01 10:00:00.123 | INFO     | app:run:42 | done'' @ [CHR 0x0A])
             @ ''not a log line''))
          ''2024-01-01''
          (snd (on_file_modified
                  [''logs/app_2024-01-01.log'' \<mapsto>
                     ''2024-01-01 10:00:00.123 | INFO     | app:run:42 | done'' @ [CHR 0x0A]]
                  ''2024-01-01'' \<lparr>log_dir = ''./logs'', file_position = Map.empty\<rparr>
                  ''./logs/app_2024-01-01.log''))
          ''./logs/app_2024-01-01.log'')
     = None"
proof -
  let ?path = "''./logs/app_2024-01-01.log''"
  let ?key = "''logs/app_2024-01-01.log''"
  let ?bytes = "''2024-01-01 10:00:00.123 | INFO     | app:run:42 | done'' @ [CHR 0x0A]"
  let ?fs = "[?key \<mapsto> ?bytes]"
  let ?w = "\<lparr>log_dir = ''./logs'', file_position = Map.empty\<rparr>"
  let ?run = "on_file_modified ?fs ''2024-01-01'' ?w ?path"
  have key: "normpath ?path = ?key"
    by code_simp
  have h0: "endswith ?path ''.log''"
    by code_simp
  have h1: "normpath ?path = normpath (get_today_log_file ?w ''2024-01-01'')"
    by code_simp
  have h2: "?fs (normpath ?path) = Some ?bytes"
    unfolding key by simp
  have h3: "plain_text ?bytes"
    by code_simp
  have h4: "(0::nat) = (case file_position ?w (normpath ?path) of None \<Rightarrow> 0 | Some p \<Rightarrow> p)"
    by simp
  have h5: "?bytes = drop 0 ?bytes"
    by simp
  have h6: "?run = (fst ?run, snd ?run)"
    by simp
  have h7: "plain_text ''not a log line''"
    by code_simp
  have e1: "collect_entries (str_split CHR 0x0A ?bytes)
              = [''2024-01-01 10:00:00.123 | INFO     | app:run:42 | done'']"
    by code_simp
  have e2: "collect_entries (str_split CHR 0x0A ''not a log line'') = []"
    by code_simp
  have e3: "length ?bytes = 55"
    by simp
  from log_watcher_event [of ?path ?w "''2024-01-01''" ?fs ?bytes 0 ?bytes "fst ?run" "snd ?run"]
    h0 h1 h2 h3 h4 h5 h6
  have "fst ?run = (if collect_entries (str_split CHR 0x0A ?bytes) = [] then None
                    else Some (collect_entries (str_split CHR 0x0A ?bytes)))"
    and "(case file_position (snd ?run) (normpath ?path) of None \<Rightarrow> 0 | Some p \<Rightarrow> p)
           = 0 + length ?bytes"
    and "\<forall>more. plain_text more \<longrightarrow>
           fst (on_file_modified (?fs(normpath ?path \<mapsto> ?bytes @ more)) ''2024-01-01''
                  (snd ?run) ?path)
             = (if collect_entries (str_split CHR 0x0A more) = [] then None
                else Some (collect_entries (str_split CHR 0x0A more)))"
    by blast+
  then show ?thesis
    using h7 e2 unfolding e1 e3 key by simp
qed

subsection \<open>\<open>get_alarm_stats\<close>\<close>

lemma lex_le_refl: "lex_le a a"
  by (induction a) auto

lemma lex_le_trans: "lex_le a b \<Longrightarrow> lex_le b c \<Longrightarrow> lex_le a c"
proof (induction a b arbitrary: c rule: lex_le.induct)
  case (1 ys)
  show ?case by simp
next
  case (2 x xs)
  then show ?case by simp
next
  case (3 x xs y ys)
  then show ?case by (cases c) auto
qed

lemma minus_hour_le:
  "minus_hour now = Some h \<Longrightarrow> minus_five_minutes now = Some f
     \<Longrightarrow> lex_le (dt_fields h) (dt_fields f)"
  by (auto simp: minus_hour_def minus_five_minutes_def prev_day_def dt_fields_def lex_le_refl
      split: if_splits)

lemma minus_hour_defined: "1 < year now \<Longrightarrow> \<exists>h. minus_hour now = Some h"
  by (simp add: minus_hour_def prev_day_def)

lemma minus_five_minutes_defined: "1 < year now \<Longrightarrow> \<exists>f. minus_five_minutes now = Some f"
  by (simp add: minus_five_minutes_def minus_hour_def prev_day_def)

lemma filter_count_mono:
  "(\<And>a. a \<in> set xs \<Longrightarrow> P a \<Longrightarrow> Q a) \<Longrightarrow> length (filter P xs) \<le> length (filter Q xs)"
proof (induction xs)
  case Nil
  show ?case by simp
next
  case (Cons x xs)
  have "length (filter P xs) \<le> length (filter Q xs)"
    by (rule Cons.IH) (simp add: Cons.prems)
  moreover have "P x \<Longrightarrow> Q x"
    by (rule Cons.prems) simp_all
  ultimately show ?case by auto
qed

text \<open>
  C6 as stated fails: the today-total counts by the \<open>alarm_date\<close> column and the other
  two counts by \<open>created_at\<close>, so an alarm raised at 23:30 and dated that day is in the
  last hour at 00:10 of the next day, but not in that day's total.
\<close>

theorem alarm_stats_counterexample:
  "get_alarm_stats
     \<lparr>year = 2024, month = 1, day = 2, hour = 0, minute = 10, second = 0, microsecond = 0\<rparr>
     [\<lparr>alarm_date = ''2024-01-01'',
       created_at = \<lparr>year = 2024, month = 1, day = 1, hour = 23, minute = 30, second = 0,
                      microsecond = 0\<rparr>\<rparr>]
   = Inr \<lparr>today_total = 0, last_hour = 1, last_five_minutes = 0\<rparr>
   \<and> today_total \<lparr>today_total = 0, last_hour = 1, last_five_minutes = 0\<rparr>
       < last_hour \<lparr>today_total = 0, last_hour = 1, last_five_minutes = 0\<rparr>"
  by code_simp

text \<open>
  C6, amended. For any fixed snapshot of the alarm table and any current time after
  year 1, the statistics operation returns counts; its today-total is the number of
  alarms whose \<open>alarm_date\<close> equals the current calendar date, and its last-hour count is
  greater than or equal to its last-5-minutes count. The today-total is greater than
  or equal to the last-hour count when every alarm created within the last hour carries
  the current date as its \<open>alarm_date\<close>.
\<close>

theorem alarm_stats:
  "(1 < year now \<longrightarrow> (\<exists>s. get_alarm_stats now alarms = Inr s))
   \<and> (get_alarm_stats now alarms = Inr stats \<longrightarrow>
        today_total stats = length (filter (\<lambda>a. alarm_date a = strftime_Ymd now) alarms)
        \<and> last_five_minutes stats \<le> last_hour stats
        \<and> ((\<forall>one_hour_ago. minus_hour now = Some one_hour_ago \<longrightarrow>
               (\<forall>a \<in> set alarms. dt_ge (created_at a) one_hour_ago
                    \<longrightarrow> alarm_date a = strftime_Ymd now))
             \<longrightarrow> last_hour stats \<le> today_total stats))"
proof (intro conjI impI)
  assume "1 < year now"
  then obtain h f where "minus_hour now = Some h" "minus_five_minutes now = Some f"
    using minus_hour_defined minus_five_minutes_defined by blast
  then show "\<exists>s. get_alarm_stats now alarms = Inr s"
    by (simp add: get_alarm_stats_def)
next
  assume res: "get_alarm_stats now alarms = Inr stats"
  then obtain h f where h: "minus_hour now = Some h" and f: "minus_five_minutes now = Some f"
    by (auto simp: get_alarm_stats_def Let_def split: option.splits)
  from res h f have stats:
    "stats = \<lparr>today_total = length (filter (\<lambda>a. alarm_date a = strftime_Ymd now) alarms),
              last_hour = length (filter (\<lambda>a. dt_ge (created_at a) h) alarms),
              last_five_minutes = length (filter (\<lambda>a. dt_ge (created_at a) f) alarms)\<rparr>"
    by (simp add: get_alarm_stats_def Let_def)
  show "today_total stats = length (filter (\<lambda>a. alarm_date a = strftime_Ymd now) alarms)"
    by (simp add: stats)
  have "length (filter (\<lambda>a. dt_ge (created_at a) f) alarms)
          \<le> length (filter (\<lambda>a. dt_ge (created_at a) h) alarms)"
  proof (rule filter_count_mono)
    fix a assume "dt_ge (created_at a) f"
    then have "lex_le (dt_fields f) (dt_fields (created_at a))" by (simp add: dt_ge_def)
    with minus_hour_le [OF h f] have "lex_le (dt_fields h) (dt_fields (created_at a))"
      by (rule lex_le_trans)
    then show "dt_ge (created_at a) h" by (simp add: dt_ge_def)
  qed
  then show "last_five_minutes stats \<le> last_hour stats"
    by (simp add: stats)
  assume dated: "\<forall>one_hour_ago. minus_hour now = Some one_hour_ago \<longrightarrow>
               (\<forall>a \<in> set alarms. dt_ge (created_at a) one_hour_ago
                    \<longrightarrow> alarm_date a = strftime_Ymd now)"
  have "length (filter (\<lambda>a. dt_ge (created_at a) h) alarms)
          \<le> length (filter (\<lambda>a. alarm_date a = strftime_Ymd now) alarms)"
  proof (rule filter_count_mono)
    fix a assume "a \<in> set alarms" "dt_ge (created_at a) h"
    with dated h show "alarm_date a = strftime_Ymd now" by blast
  qed
  then show "last_hour stats \<le> today_total stats"
    by (simp add: stats)
qed

theorem alarm_stats_witness:
  "get_alarm_stats
     \<lparr>year = 2024, month = 1, day = 2, hour = 12, minute = 0, second = 0, microsecond = 0\<rparr>
     [\<lparr>alarm_date = ''2024-01-02'',
       created_at = \<lparr>year = 2024, month = 1, day = 2, hour = 11, minute = 58, second = 0,
                      microsecond = 0\<rparr>\<rparr>,
      \<lparr>alarm_date = ''2024-01-02'',
       created_at = \<lparr>year = 2024, month = 1, day = 2, hour = 11, minute = 30, second = 0,
                      microsecond = 0\<rparr>\<rparr>,
      \<lparr>alarm_date = ''2024-01-02'',
       created_at = \<lparr>year = 2024, month = 1, day = 2, hour = 9, minute = 0, second = 0,
                      microsecond = 0\<rparr>\<rparr>,
      \<lparr>alarm_date = ''2024-01-01'',
       created_at = \<lparr>year = 2024, month = 1, day = 1, hour = 10, minute = 0, second = 0,
                      microsecond = 0\<rparr>\<rparr>]
   = Inr \<lparr>today_total = 3, last_hour = 2, last_five_minutes = 1\<rparr>
   \<and> last_five_minutes \<lparr>today_total = 3, last_hour = 2, last_five_minutes = 1\<rparr>
       \<le> last_hour \<lparr>today_total = 3, last_hour = 2, last_five_minutes = 1\<rparr>
   \<and> last_hour \<lparr>today_total = 3, last_hour = 2, last_five_minutes = 1\<rparr>
       \<le> today_total \<lparr>today_total = 3, last_hour = 2, last_five_minutes = 1\<rparr>"
proof -
  let ?now = "\<lparr>year = 2024, month = 1, day = 2, hour = 12, minute = 0, second = 0,
                microsecond = 0\<rparr>"
  let ?alarms = "[\<lparr>alarm_date = ''2024-01-02'',
       created_at = \<lparr>year = 2024, month = 1, day = 2, hour = 11, minute = 58, second = 0,
                      microsecond = 0\<rparr>\<rparr>,
      \<lparr>alarm_date = ''2024-01-02'',
       created_at = \<lparr>year = 2024, month = 1, day = 2, hour = 11, minute = 30, second = 0,
                      microsecond = 0\<rparr>\<rparr>,
      \<lparr>alarm_date = ''2024-01-02'',
       created_at = \<lparr>year = 2024, month = 1, day = 2, hour = 9, minute = 0, second = 0,
                      microsecond = 0\<rparr>\<rparr>,
      \<lparr>alarm_date = ''2024-01-01'',
       created_at = \<lparr>year = 2024, month = 1, day = 1, hour = 10, minute = 0, second = 0,
                      microsecond = 0\<rparr>\<rparr>]"
  let ?stats = "\<lparr>today_total = 3, last_hour = 2, last_five_minutes = 1\<rparr>"
  have run: "get_alarm_stats ?now ?alarms = Inr ?stats"
    by code_simp
  have today: "strftime_Ymd ?now = ''2024-01-02''"
    by code_simp
  have ago: "minus_hour ?now = Some (?now\<lparr>hour := 11\<rparr>)"
    by (simp add: minus_hour_def)
  have dated: "\<forall>one_hour_ago. minus_hour ?now = Some one_hour_ago \<longrightarrow>
               (\<forall>a \<in> set ?alarms. dt_ge (created_at a) one_hour_ago
                    \<longrightarrow> alarm_date a = strftime_Ymd ?now)"
    unfolding ago today by (simp add: dt_ge_def dt_fields_def)
  from alarm_stats [of ?now ?alarms ?stats] run dated
  show ?thesis by blast
qed

subsection \<open>\<open>send_wechat\<close>\<close>

text \<open>
  C7 as stated fails: \<open>send_wechat\<close> has no exception handler, so a failed connection, a
  200 response whose body is not JSON and a 200 response without \<open>errcode\<close> each raise to
  the caller.
\<close>

theorem send_wechat_raises_counterexample:
  "send_wechat ''hi'' PostRaises = Inl ConnectionError
   \<and> send_wechat ''hi'' (PostReturns \<lparr>status_code = 200, rsp_text = ''ok'', json_body = None\<rparr>)
       = Inl JSONDecodeError
   \<and> send_wechat ''hi''
         (PostReturns \<lparr>status_code = 200, rsp_text = ''{}'', json_body = Some (JObj [])\<rparr>)
       = Inl KeyError"
  by (simp add: send_wechat_def)

text \<open>
  C7, amended. For every message and every response of the relay, \<open>send_wechat\<close> logs a
  failure (message and response text) and returns when the status is not 200, or when
  the status is 200 and the JSON body is an object whose \<open>errcode\<close> differs from 0; it
  returns without logging when that \<open>errcode\<close> equals 0. It raises to its caller exactly
  when the request itself raises, or the status is 200 and the body is not JSON, is not
  a JSON object, or has no \<open>errcode\<close> field.
\<close>

theorem send_wechat_cases:
  "(status_code rsp \<noteq> 200 \<longrightarrow> send_wechat msg (PostReturns rsp) = Inr [(msg, rsp_text rsp)])
   \<and> (status_code rsp = 200 \<and> json_body rsp = Some (JObj kvs) \<and> map_of kvs ''errcode'' = Some v
        \<longrightarrow> send_wechat msg (PostReturns rsp)
              = (if ne_zero v then Inr [(msg, rsp_text rsp)] else Inr []))
   \<and> (isl (send_wechat msg r) \<longleftrightarrow>
        r = PostRaises
        \<or> (\<exists>rsp'. r = PostReturns rsp' \<and> status_code rsp' = 200
              \<and> (json_body rsp' = None
                  \<or> (\<exists>j. json_body rsp' = Some j \<and> isl (py_getitem j ''errcode'')))))"
proof (intro conjI impI)
  assume "status_code rsp \<noteq> 200"
  then show "send_wechat msg (PostReturns rsp) = Inr [(msg, rsp_text rsp)]"
    by (simp add: send_wechat_def)
next
  assume "status_code rsp = 200 \<and> json_body rsp = Some (JObj kvs)
            \<and> map_of kvs ''errcode'' = Some v"
  then show "send_wechat msg (PostReturns rsp)
               = (if ne_zero v then Inr [(msg, rsp_text rsp)] else Inr [])"
    by (simp add: send_wechat_def)
next
  show "isl (send_wechat msg r) \<longleftrightarrow>
        r = PostRaises
        \<or> (\<exists>rsp'. r = PostReturns rsp' \<and> status_code rsp' = 200
              \<and> (json_body rsp' = None
                  \<or> (\<exists>j. json_body rsp' = Some j \<and> isl (py_getitem j ''errcode''))))"
    by (cases r) (auto simp: send_wechat_def split: option.splits sum.splits)
qed

theorem send_wechat_cases_witness:
  "send_wechat ''hi'' (PostReturns \<lparr>status_code = 500, rsp_text = ''oops'', json_body = None\<rparr>)
       = Inr [(''hi'', ''oops'')]
   \<and> send_wechat ''hi'' (PostReturns \<lparr>status_code = 200, rsp_text = ''e'',
          json_body = Some (JObj [(''errcode'', JNum 40001)])\<rparr>) = Inr [(''hi'', ''e'')]
   \<and> send_wechat ''hi'' (PostReturns \<lparr>status_code = 200, rsp_text = ''e'',
          json_body = Some (JObj [(''errcode'', JNum 0)])\<rparr>) = Inr []
   \<and> isl (send_wechat ''hi'' (PostReturns \<lparr>status_code = 200, rsp_text = ''[]'',
          json_body = Some (JArr [])\<rparr>))"
  using send_wechat_cases [of "\<lparr>status_code = 500, rsp_text = ''oops'', json_body = None\<rparr>" "''hi''"]
    send_wechat_cases [of "\<lparr>status_code = 200, rsp_text = ''e'',
          json_body = Some (JObj [(''errcode'', JNum 40001)])\<rparr>" "''hi''"
          "[(''errcode'', JNum 40001)]" "JNum 40001"]
    send_wechat_cases [of "\<lparr>status_code = 200, rsp_text = ''e'',
          json_body = Some (JObj [(''errcode'', JNum 0)])\<rparr>" "''hi''"
          "[(''errcode'', JNum 0)]" "JNum 0"]
    send_wechat_cases [of _ _ _ _ "PostReturns \<lparr>status_code = 200, rsp_text = ''[]'',
          json_body = Some (JArr [])\<rparr>"]
  by simp

subsection \<open>\<open>TqGateway._format_symbol\<close>\<close>

lemma exchange_map_dom:
  "(exchange_map k \<noteq> None) = (k \<in> {''SHFE'', ''DCE'', ''CZCE'', ''CFFEX'', ''INE'', ''GFEX''})"
  by (simp add: exchange_map_def)

text \<open>
  What the code computes: for a symbol with a dot, a string exactly when there are two
  dot-separated parts of which one upper-cases to a known exchange code, and \<open>None\<close>
  otherwise; a symbol without a dot is passed through, except the empty one.
\<close>

lemma format_symbol_cases:
  "(CHR ''.'' \<in> set symbol \<longrightarrow>
      (format_symbol symbol \<noteq> None \<longleftrightarrow>
         length (str_split CHR ''.'' symbol) = 2
         \<and> (upper (str_split CHR ''.'' symbol ! 0)
               \<in> {''SHFE'', ''DCE'', ''CZCE'', ''CFFEX'', ''INE'', ''GFEX''}
            \<or> upper (str_split CHR ''.'' symbol ! 1)
               \<in> {''SHFE'', ''DCE'', ''CZCE'', ''CFFEX'', ''INE'', ''GFEX''}))
      \<and> (length (str_split CHR ''.'' symbol) = 2
           \<and> upper (str_split CHR ''.'' symbol ! 0)
               \<in> {''SHFE'', ''DCE'', ''CZCE'', ''CFFEX'', ''INE'', ''GFEX''}
           \<longrightarrow> format_symbol symbol = Some symbol)
      \<and> (length (str_split CHR ''.'' symbol) = 2
           \<and> upper (str_split CHR ''.'' symbol ! 0)
               \<notin> {''SHFE'', ''DCE'', ''CZCE'', ''CFFEX'', ''INE'', ''GFEX''}
           \<and> upper (str_split CHR ''.'' symbol ! 1)
               \<in> {''SHFE'', ''DCE'', ''CZCE'', ''CFFEX'', ''INE'', ''GFEX''}
           \<longrightarrow> format_symbol symbol
               = Some (upper (str_split CHR ''.'' symbol ! 1) @ ''.''
                       @ str_split CHR ''.'' symbol ! 0)))
   \<and> (CHR ''.'' \<notin> set symbol \<longrightarrow>
        format_symbol symbol = (if symbol = [] then None else Some symbol))"
proof (intro conjI impI)
  assume dot: "CHR ''.'' \<in> set symbol"
  then have ne: "symbol \<noteq> []" by auto
  show "format_symbol symbol \<noteq> None \<longleftrightarrow>
         length (str_split CHR ''.'' symbol) = 2
         \<and> (upper (str_split CHR ''.'' symbol ! 0)
               \<in> {''SHFE'', ''DCE'', ''CZCE'', ''CFFEX'', ''INE'', ''GFEX''}
            \<or> upper (str_split CHR ''.'' symbol ! 1)
               \<in> {''SHFE'', ''DCE'', ''CZCE'', ''CFFEX'', ''INE'', ''GFEX''})"
    unfolding format_symbol_def Let_def exchange_map_dom using dot ne
    by (simp only: if_True if_False) auto
next
  assume dot: "CHR ''.'' \<in> set symbol"
    and "length (str_split CHR ''.'' symbol) = 2
           \<and> upper (str_split CHR ''.'' symbol ! 0)
               \<in> {''SHFE'', ''DCE'', ''CZCE'', ''CFFEX'', ''INE'', ''GFEX''}"
  moreover from dot have "symbol \<noteq> []" by auto
  ultimately show "format_symbol symbol = Some symbol"
    unfolding format_symbol_def Let_def exchange_map_dom
    by simp
next
  assume dot: "CHR ''.'' \<in> set symbol"
    and "length (str_split CHR ''.'' symbol) = 2
           \<and> upper (str_split CHR ''.'' symbol ! 0)
               \<notin> {''SHFE'', ''DCE'', ''CZCE'', ''CFFEX'', ''INE'', ''GFEX''}
           \<and> upper (str_split CHR ''.'' symbol ! 1)
               \<in> {''SHFE'', ''DCE'', ''CZCE'', ''CFFEX'', ''INE'', ''GFEX''}"
  moreover from dot have "symbol \<noteq> []" by auto
  ultimately show "format_symbol symbol
               = Some (upper (str_split CHR ''.'' symbol ! 1) @ ''.''
                       @ str_split CHR ''.'' symbol ! 0)"
    unfolding format_symbol_def Let_def exchange_map_dom
    by simp
next
  assume "CHR ''.'' \<notin> set symbol"
  then show "format_symbol symbol = (if symbol = [] then None else Some symbol)"
    by (simp add: format_symbol_def)
qed

lemma format_symbol_examples:
  "format_symbol ''SHFE.rb2505'' = Some ''SHFE.rb2505''
   \<and> format_symbol ''rb2505.shfe'' = Some ''SHFE.rb2505''
   \<and> format_symbol ''SHFE.rb.2505'' = None
   \<and> format_symbol ''rb.2505'' = None
   \<and> format_symbol ''rb2505'' = Some ''rb2505''
   \<and> format_symbol [] = None"
  using format_symbol_cases [of "''SHFE.rb2505''"] format_symbol_cases [of "''rb2505.shfe''"]
    format_symbol_cases [of "''SHFE.rb.2505''"] format_symbol_cases [of "''rb.2505''"]
    format_symbol_cases [of "''rb2505''"] format_symbol_cases [of "[]"]
  by (simp add: upper_def upper_char_def)

text \<open>
  C8. The claim: for a symbol with a dot, \<open>_format_symbol\<close> returns a normalized
  \<open>EXCHANGE.SYMBOL\<close> string, and only for two dot-separated parts of which one
  upper-cases to a known exchange code; only a symbol without a dot is passed through as
  it came. The code does not normalize in its first branch. It recognises the exchange
  in the first part whatever its case (\<open>parts[0].upper()\<close>), then returns the symbol as
  it came: \<open>shfe.rb2505\<close> comes back with the exchange in lower case. The second branch
  does upper-case the exchange: \<open>rb2505.shfe\<close> gives \<open>SHFE.rb2505\<close>, so the same contract
  is returned in two spellings.
\<close>

theorem format_symbol_lower_case_exchange:
  "format_symbol ''shfe.rb2505'' = Some ''shfe.rb2505''
   \<and> exchange_map (upper ''shfe'') = Some SHFE
   \<and> format_symbol ''rb2505.shfe'' = Some ''SHFE.rb2505''
   \<and> format_symbol ''SHFE.rb2505'' = Some ''SHFE.rb2505''"
  by (simp add: format_symbol_def exchange_map_def upper_def upper_char_def Let_def)

subsection \<open>\<open>BackoffStrategy.get_delay\<close>\<close>

lemma delays_step:
  "delays (Suc (Suc n)) b ! Suc n
     = min (delays (Suc (Suc n)) b ! n * multiplier b) (max_delay b)"
proof (induction n arbitrary: b)
  case 0
  show ?case by (simp add: get_delay_def Let_def)
next
  case (Suc n)
  let ?b' = "b\<lparr>current_delay := min (current_delay b * multiplier b) (max_delay b)\<rparr>"
  have unfold: "delays (Suc (Suc (Suc n))) b = current_delay b # delays (Suc (Suc n)) ?b'"
    by (simp add: get_delay_def Let_def)
  have "delays (Suc (Suc (Suc n))) b ! Suc (Suc n) = delays (Suc (Suc n)) ?b' ! Suc n"
    by (simp only: unfold nth_Cons_Suc)
  also have "\<dots> = min (delays (Suc (Suc n)) ?b' ! n * multiplier ?b') (max_delay ?b')"
    by (rule Suc.IH)
  also have "\<dots> = min (delays (Suc (Suc (Suc n))) b ! Suc n * multiplier b) (max_delay b)"
    by (simp only: unfold nth_Cons_Suc) simp
  finally show ?case .
qed

lemma delays_bounded:
  "d \<in> set (delays n b) \<Longrightarrow> d \<le> max (current_delay b) (max_delay b)"
proof (induction n arbitrary: b)
  case 0
  then show ?case by simp
next
  case (Suc n)
  let ?b' = "b\<lparr>current_delay := min (current_delay b * multiplier b) (max_delay b)\<rparr>"
  from Suc.prems have "d = current_delay b \<or> d \<in> set (delays n ?b')"
    by (simp add: get_delay_def Let_def)
  then show ?case
  proof
    assume "d = current_delay b"
    then show ?thesis by simp
  next
    assume "d \<in> set (delays n ?b')"
    then have "d \<le> max (current_delay ?b') (max_delay ?b')" by (rule Suc.IH)
    then show ?thesis by simp
  qed
qed

lemma delays_lower:
  "d \<in> set (delays n b) \<Longrightarrow> 1 \<le> multiplier b \<Longrightarrow> 0 \<le> current_delay b
     \<Longrightarrow> current_delay b \<le> max_delay b \<Longrightarrow> current_delay b \<le> d"
proof (induction n arbitrary: b)
  case 0
  then show ?case by simp
next
  case (Suc n)
  let ?c = "min (current_delay b * multiplier b) (max_delay b)"
  let ?b' = "b\<lparr>current_delay := ?c\<rparr>"
  have "current_delay b * 1 \<le> current_delay b * multiplier b"
    using Suc.prems(2,3) by (rule mult_left_mono)
  then have up: "current_delay b \<le> ?c"
    using Suc.prems(4) by simp
  from Suc.prems(1) have "d = current_delay b \<or> d \<in> set (delays n ?b')"
    by (simp add: get_delay_def Let_def)
  then show ?case
  proof
    assume "d = current_delay b"
    then show ?thesis by simp
  next
    assume "d \<in> set (delays n ?b')"
    moreover have "1 \<le> multiplier ?b'" "0 \<le> current_delay ?b'"
      "current_delay ?b' \<le> max_delay ?b'"
      using Suc.prems(2,3) up by simp_all
    ultimately have "current_delay ?b' \<le> d" by (rule Suc.IH)
    then show ?thesis using up by (simp add: min_le_iff_disj) linarith
  qed
qed

lemma delays_sorted:
  "1 \<le> multiplier b \<Longrightarrow> 0 \<le> current_delay b \<Longrightarrow> current_delay b \<le> max_delay b
     \<Longrightarrow> sorted (delays n b)"
proof (induction n arbitrary: b)
  case 0
  show ?case by simp
next
  case (Suc n)
  let ?c = "min (current_delay b * multiplier b) (max_delay b)"
  let ?b' = "b\<lparr>current_delay := ?c\<rparr>"
  have "current_delay b * 1 \<le> current_delay b * multiplier b"
    using Suc.prems(1,2) by (rule mult_left_mono)
  then have up: "current_delay b \<le> ?c"
    using Suc.prems(3) by simp
  have tl: "sorted (delays n ?b')"
    using Suc.prems(1,2) up by (rule_tac Suc.IH) simp_all
  have hd: "\<forall>d \<in> set (delays n ?b'). current_delay b \<le> d"
  proof
    fix d assume "d \<in> set (delays n ?b')"
    moreover have "1 \<le> multiplier ?b'" "0 \<le> current_delay ?b'"
      "current_delay ?b' \<le> max_delay ?b'"
      using Suc.prems(1,2) up by simp_all
    ultimately have "current_delay ?b' \<le> d" by (rule delays_lower)
    then show "current_delay b \<le> d" using up by (simp add: min_le_iff_disj) linarith
  qed
  show ?case using tl hd by (simp add: get_delay_def Let_def)
qed

text \<open>
  C9 as stated fails: the claim allows \<open>initial_delay > max_delay\<close> and still promises a
  non-decreasing sequence for \<open>multiplier \<ge> 1\<close>. With \<open>initial_delay = 20\<close>,
  \<open>max_delay = 15\<close>, \<open>multiplier = 1.5\<close> the first two delays are 20 and then 15
  (all of these values and their products are exact in binary floating point).
\<close>

theorem backoff_non_decreasing_counterexample:
  "1 \<le> multiplier (BackoffStrategy 20 15 (3/2))
   \<and> delays 2 (BackoffStrategy 20 15 (3/2)) = [20, 15]
   \<and> \<not> sorted (delays 2 (BackoffStrategy 20 15 (3/2)))"
  by (simp add: BackoffStrategy_def get_delay_def Let_def numeral_2_eq_2)

text \<open>
  C9, amended. A strategy is fresh after construction and after \<open>reset()\<close>:
  \<open>_current_delay = initial_delay\<close>. For every fresh strategy the first \<open>get_delay()\<close>
  returns exactly \<open>initial_delay\<close>, also when it exceeds \<open>max_delay\<close>; every later call
  returns \<open>min(previous returned delay * multiplier, max_delay)\<close>; every returned delay is
  at most \<open>max(initial_delay, max_delay)\<close>; and the returned sequence is non-decreasing
  when \<open>multiplier \<ge> 1\<close> and \<open>0 \<le> initial_delay \<le> max_delay\<close>.
\<close>

theorem backoff_delays:
  "current_delay (BackoffStrategy i mx m) = initial_delay (BackoffStrategy i mx m)
   \<and> current_delay (reset b0) = initial_delay (reset b0)
   \<and> (current_delay b = initial_delay b \<longrightarrow>
        fst (get_delay b) = initial_delay b
        \<and> delays (Suc (Suc n)) b ! Suc n
            = min (delays (Suc (Suc n)) b ! n * multiplier b) (max_delay b)
        \<and> (\<forall>d \<in> set (delays k b). d \<le> max (initial_delay b) (max_delay b))
        \<and> (1 \<le> multiplier b \<and> 0 \<le> initial_delay b \<and> initial_delay b \<le> max_delay b
             \<longrightarrow> sorted (delays k b)))"
proof (intro conjI impI)
  show "current_delay (BackoffStrategy i mx m) = initial_delay (BackoffStrategy i mx m)"
    by (simp add: BackoffStrategy_def)
  show "current_delay (reset b0) = initial_delay (reset b0)"
    by (simp add: reset_def)
next
  assume fresh: "current_delay b = initial_delay b"
  show "fst (get_delay b) = initial_delay b"
    using fresh by (simp add: get_delay_def Let_def)
  show "delays (Suc (Suc n)) b ! Suc n
          = min (delays (Suc (Suc n)) b ! n * multiplier b) (max_delay b)"
    by (rule delays_step)
  show "\<forall>d \<in> set (delays k b). d \<le> max (initial_delay b) (max_delay b)"
    using delays_bounded [of _ k b] fresh by simp
next
  assume fresh: "current_delay b = initial_delay b"
    and "1 \<le> multiplier b \<and> 0 \<le> initial_delay b \<and> initial_delay b \<le> max_delay b"
  then show "sorted (delays k b)"
    by (rule_tac delays_sorted) simp_all
qed

theorem backoff_delays_witness:
  "delays 4 (BackoffStrategy (1/2) 1 (3/2)) = [1/2, 3/4, 1, 1]
   \<and> sorted (delays 4 (BackoffStrategy (1/2) 1 (3/2)))
   \<and> list_all (\<lambda>d. d \<le> 1) (delays 4 (BackoffStrategy (1/2) 1 (3/2)))
   \<and> fst (get_delay (reset (snd (get_delay (BackoffStrategy 20 15 (3/2)))))) = 20"
  using backoff_delays [of "1/2" 1 "3/2" "BackoffStrategy (1/2) 1 (3/2)"
      "BackoffStrategy (1/2) 1 (3/2)" 0 4]
    backoff_delays [of 20 15 "3/2" "snd (get_delay (BackoffStrategy 20 15 (3/2)))"
      "reset (snd (get_delay (BackoffStrategy 20 15 (3/2))))" 0 0]
  by (simp add: BackoffStrategy_def get_delay_def reset_def Let_def eval_nat_numeral)

subsection \<open>\<open>WebSocketManager.disconnect\<close>\<close>

text \<open>
  C10. \<open>WebSocketManager.disconnect\<close> is idempotent: disconnecting a socket that is in
  neither the active-connections set nor the log-subscribers set leaves the manager
  unchanged (the model has no error branch, as \<open>set.discard\<close> cannot raise), and
  disconnecting the same socket twice leaves both sets as disconnecting it once does.
\<close>

theorem disconnect_idempotent:
  "(websocket \<notin> active_connections m \<and> websocket \<notin> log_subscribers m
      \<longrightarrow> disconnect websocket m = m)
   \<and> disconnect websocket (disconnect websocket m) = disconnect websocket m"
  by (auto simp: disconnect_def Let_def)

theorem disconnect_idempotent_witness:
  "disconnect (3::nat)
      \<lparr>active_connections = {1, 2}, log_subscribers = {2}, log_monitoring_enabled = True\<rparr>
     = \<lparr>active_connections = {1, 2}, log_subscribers = {2}, log_monitoring_enabled = True\<rparr>
   \<and> disconnect (2::nat) (disconnect 2
      \<lparr>active_connections = {1, 2}, log_subscribers = {2}, log_monitoring_enabled = True\<rparr>)
     = \<lparr>active_connections = {1}, log_subscribers = {}, log_monitoring_enabled = True\<rparr>"
  using disconnect_idempotent [of "3::nat"
      "\<lparr>active_connections = {1, 2}, log_subscribers = {2}, log_monitoring_enabled = True\<rparr>"]
    disconnect_idempotent [of "2::nat"
      "\<lparr>active_connections = {1, 2}, log_subscribers = {2}, log_monitoring_enabled = True\<rparr>"]
  by (auto simp: disconnect_def Let_def)

end
